theory Spec2Isabelle
  imports Main "HOL-Library.AList"
begin

section \<open>Values, rows and attribute options\<close>

text \<open>
  The repository is a Sequelize application: its sources are the declarations of four
  models (\<open>Model.init\<close>), the migrations that create their tables
  (\<open>queryInterface.createTable\<close>), one hook and one instance method. The declarations
  are embedded as data, option by option. The operations they govern (\<open>Model.create\<close>,
  \<open>update\<close>, \<open>destroy\<close>) are the library's and the database's; they are functions
  here that read the declarations and do what each declared option means: defaults,
  \<open>allowNull\<close>, validators, \<open>unique\<close>, \<open>references\<close> and
  \<open>onDelete\<close>.

  A JavaScript value held by an attribute is \<open>null\<close>, a number, a string, a boolean or
  a date (a time stamp). An instance, and a stored row, is an association list from
  attribute names to values; a key that is absent is \<open>undefined\<close>, and reads as
  \<open>Null\<close>.
\<close>

datatype val = Null | IntV int | StrV string | BoolV bool | DateV nat

type_synonym row = "(string \<times> val) list"

definition get :: "row \<Rightarrow> string \<Rightarrow> val" where
  "get r k = (case map_of r k of None \<Rightarrow> Null | Some v \<Rightarrow> v)"

definition put :: "string \<Rightarrow> val \<Rightarrow> row \<Rightarrow> row" where
  "put k v r = AList.update k v r"

datatype data_type = INTEGER | STRING | TEXT | BOOLEAN | DATE | ENUM "string list" | VIRTUAL

datatype fk_action = CASCADE | SET_NULL

text \<open>
  The options of one attribute, as \<open>Model.init\<close> and \<open>createTable\<close> take them.
  \<open>notEmpty\<close> is the one validator the sources use (\<open>validate: { notEmpty: true }\<close>).
  \<open>attr\<close> is the short form \<open>name: DataTypes.T\<close>, every option at its default.
\<close>

record attribute =
  field :: string
  type :: data_type
  allowNull :: bool
  unique :: bool
  primaryKey :: bool
  autoIncrement :: bool
  defaultValue :: "val option"
  references :: "(string \<times> string) option"
  onDelete :: "fk_action option"
  notEmpty :: bool

definition attr :: "string \<Rightarrow> data_type \<Rightarrow> attribute" where
  "attr f t = \<lparr>field = f, type = t, allowNull = True, unique = False, primaryKey = False,
     autoIncrement = False, defaultValue = None, references = None, onDelete = None,
     notEmpty = False\<rparr>"

text \<open>
  The errors of a write, each with the attribute or column it is about. The first five
  are the library's. \<open>Unmodelled\<close> is no error of the code: it ends a write that
  holds a value of another kind than its column's type, which the embedding does not
  follow (see \<open>conforms\<close> below).
\<close>

datatype error =
    ValidationError string
  | UniqueConstraintError string
  | ForeignKeyConstraintError string
  | DatabaseError string
  | Error string
  | Unmodelled string

section \<open>The migrations: the storage layout\<close>

text \<open>src/backend/migrations/20250925194505-create-data-item.js, lines 5 to 44.\<close>

definition DataItems_table :: "attribute list" where
  "DataItems_table =
    [(attr ''id'' INTEGER)\<lparr>allowNull := False, autoIncrement := True, primaryKey := True\<rparr>,
     attr ''originalLine'' TEXT,
     attr ''identifier'' STRING,
     attr ''originalLabelText'' TEXT,
     attr ''originalMacroText'' TEXT,
     (attr ''isComplete'' BOOLEAN)\<lparr>allowNull := False, defaultValue := Some (BoolV False)\<rparr>,
     attr ''accessionId'' STRING,
     attr ''imageIdentifier'' STRING,
     (attr ''createdAt'' DATE)\<lparr>allowNull := False\<rparr>,
     (attr ''updatedAt'' DATE)\<lparr>allowNull := False\<rparr>]"

text \<open>src/backend/migrations/20250925194847-create-data-item-version.js, lines 5 to 38.\<close>

definition DataItemVersions_table :: "attribute list" where
  "DataItemVersions_table =
    [(attr ''id'' INTEGER)\<lparr>allowNull := False, autoIncrement := True, primaryKey := True\<rparr>,
     (attr ''dataItemId'' INTEGER)\<lparr>allowNull := False,
        references := Some (''DataItems'', ''id''), onDelete := Some CASCADE\<rparr>,
     (attr ''changedByUserId'' INTEGER)\<lparr>allowNull := False,
        references := Some (''Users'', ''id''), onDelete := Some CASCADE\<rparr>,
     (attr ''createdAt'' DATE)\<lparr>allowNull := False\<rparr>,
     (attr ''updatedAt'' DATE)\<lparr>allowNull := False\<rparr>]"

text \<open>src/unnamed/part_000 (the migration that creates QueueItems), lines 5 to 62.\<close>

definition QueueItems_table :: "attribute list" where
  "QueueItems_table =
    [(attr ''id'' INTEGER)\<lparr>allowNull := False, autoIncrement := True, primaryKey := True\<rparr>,
     (attr ''dataItemId'' INTEGER)\<lparr>allowNull := False, unique := True,
        references := Some (''DataItems'', ''id''), onDelete := Some CASCADE\<rparr>,
     (attr ''status'' (ENUM [''pending'', ''leased'', ''completed'']))\<lparr>allowNull := False,
        defaultValue := Some (StrV ''pending'')\<rparr>,
     (attr ''leasedById'' INTEGER)\<lparr>allowNull := True,
        references := Some (''Users'', ''id''), onDelete := Some SET_NULL\<rparr>,
     (attr ''leasedAt'' DATE)\<lparr>allowNull := True\<rparr>,
     (attr ''completedById'' INTEGER)\<lparr>allowNull := True,
        references := Some (''Users'', ''id''), onDelete := Some SET_NULL\<rparr>,
     (attr ''completedAt'' DATE)\<lparr>allowNull := True\<rparr>,
     (attr ''createdAt'' DATE)\<lparr>allowNull := False\<rparr>,
     (attr ''updatedAt'' DATE)\<lparr>allowNull := False\<rparr>]"

section \<open>The models\<close>

text \<open>
  The attribute lists of the four \<open>Model.init\<close> calls:
  src/unnamed/part_001 lines 18 to 33 (QueueItem), src/backend/models/dataitemversion.js
  lines 17 to 25, and the DataItem and User models at lines 60 to 70 and 91 to 121 of
  src/backend/migrations/20250925194847-create-data-item-version.js.
\<close>

definition QueueItem_attributes :: "attribute list" where
  "QueueItem_attributes =
    [(attr ''dataItemId'' INTEGER)\<lparr>allowNull := False, unique := True\<rparr>,
     (attr ''status'' (ENUM [''pending'', ''leased'', ''completed'']))\<lparr>allowNull := False,
        defaultValue := Some (StrV ''pending'')\<rparr>,
     attr ''leasedById'' INTEGER,
     attr ''leasedAt'' DATE,
     attr ''completedById'' INTEGER,
     attr ''completedAt'' DATE]"

definition DataItemVersion_attributes :: "attribute list" where
  "DataItemVersion_attributes =
    [attr ''dataItemId'' INTEGER,
     attr ''version'' INTEGER,
     attr ''accessionId'' STRING,
     attr ''stain'' STRING,
     attr ''blockNumber'' STRING,
     attr ''isComplete'' BOOLEAN,
     attr ''changedByUserId'' INTEGER]"

definition DataItem_attributes :: "attribute list" where
  "DataItem_attributes =
    [attr ''originalLine'' TEXT,
     attr ''identifier'' STRING,
     attr ''originalLabelText'' TEXT,
     attr ''originalMacroText'' TEXT,
     attr ''accessionId'' STRING,
     attr ''stain'' STRING,
     attr ''blockNumber'' STRING,
     attr ''isComplete'' BOOLEAN,
     attr ''imageIdentifier'' STRING]"

definition User_attributes :: "attribute list" where
  "User_attributes =
    [(attr ''username'' STRING)\<lparr>allowNull := False, unique := True, notEmpty := True\<rparr>,
     (attr ''password'' VIRTUAL)\<lparr>allowNull := False, notEmpty := True\<rparr>,
     (attr ''passwordHash'' STRING)\<lparr>allowNull := False\<rparr>,
     (attr ''correctionCount'' INTEGER)\<lparr>allowNull := False, defaultValue := Some (IntV 0)\<rparr>,
     (attr ''isAdmin'' BOOLEAN)\<lparr>allowNull := False, defaultValue := Some (BoolV False)\<rparr>]"

text \<open>
  Modelled from the spec: the migration that creates the table Users is missing from the
  sources. The spec lists the fields of a User (id, username, credential hash, running
  correction count, admin flag); the table is given these columns, each with the options
  \<open>User.init\<close> declares for it, which is also the table \<open>sequelize.sync\<close> builds in
  src/backend/__tests__/models.test.js (line 5).
\<close>

definition Users_table :: "attribute list" where
  "Users_table =
    [(attr ''id'' INTEGER)\<lparr>allowNull := False, autoIncrement := True, primaryKey := True\<rparr>,
     (attr ''username'' STRING)\<lparr>allowNull := False, unique := True\<rparr>,
     (attr ''passwordHash'' STRING)\<lparr>allowNull := False\<rparr>,
     (attr ''correctionCount'' INTEGER)\<lparr>allowNull := False, defaultValue := Some (IntV 0)\<rparr>,
     (attr ''isAdmin'' BOOLEAN)\<lparr>allowNull := False, defaultValue := Some (BoolV False)\<rparr>,
     (attr ''createdAt'' DATE)\<lparr>allowNull := False\<rparr>,
     (attr ''updatedAt'' DATE)\<lparr>allowNull := False\<rparr>]"

text \<open>
  A model: its name, its table, the attributes of \<open>Model.init\<close>, the columns of the
  table, and its \<open>beforeValidate\<close> hook. The hook receives the salt that
  \<open>bcrypt.genSalt\<close> draws (the only randomness of the sources) and may throw.
\<close>

record model =
  modelName :: string
  tableName :: string
  attributes :: "attribute list"
  columns :: "attribute list"
  beforeValidate :: "string \<Rightarrow> row \<Rightarrow> error + row"

definition QueueItem :: model where
  "QueueItem = \<lparr>modelName = ''QueueItem'', tableName = ''QueueItems'',
     attributes = QueueItem_attributes, columns = QueueItems_table,
     beforeValidate = (\<lambda>salt inst. Inr inst)\<rparr>"

definition DataItemVersion :: model where
  "DataItemVersion = \<lparr>modelName = ''DataItemVersion'', tableName = ''DataItemVersions'',
     attributes = DataItemVersion_attributes, columns = DataItemVersions_table,
     beforeValidate = (\<lambda>salt inst. Inr inst)\<rparr>"

definition DataItem :: model where
  "DataItem = \<lparr>modelName = ''DataItem'', tableName = ''DataItems'',
     attributes = DataItem_attributes, columns = DataItems_table,
     beforeValidate = (\<lambda>salt inst. Inr inst)\<rparr>"

text \<open>
  The hook of User (lines 125 to 130): \<open>if (user.password)\<close> is JavaScript truthiness;
  \<open>bcrypt.hash\<close> takes a string and throws on any other truthy value. bcrypt is a
  library outside the repository: its \<open>hash\<close> is a parameter of the model, and its
  \<open>compare\<close> a parameter of \<open>verifyPassword\<close> (lines 86 to 88).
\<close>

fun truthy :: "val \<Rightarrow> bool" where
  "truthy Null = False"
| "truthy (IntV n) = (n \<noteq> 0)"
| "truthy (StrV s) = (s \<noteq> [])"
| "truthy (BoolV b) = b"
| "truthy (DateV d) = True"

definition User_beforeValidate ::
    "(string \<Rightarrow> string \<Rightarrow> string) \<Rightarrow> string \<Rightarrow> row \<Rightarrow> error + row" where
  "User_beforeValidate hash salt user =
     (if truthy (get user ''password'')
      then (case get user ''password'' of
              StrV p \<Rightarrow> Inr (put ''passwordHash'' (StrV (hash p salt)) user)
            | _ \<Rightarrow> Inl (Error ''data must be a string or Buffer''))
      else Inr user)"

definition User :: "(string \<Rightarrow> string \<Rightarrow> string) \<Rightarrow> model" where
  "User hash = \<lparr>modelName = ''User'', tableName = ''Users'',
     attributes = User_attributes, columns = Users_table,
     beforeValidate = User_beforeValidate hash\<rparr>"

definition verifyPassword :: "(string \<Rightarrow> string \<Rightarrow> bool) \<Rightarrow> row \<Rightarrow> val \<Rightarrow> error + bool" where
  "verifyPassword compare user password =
     (case (password, get user ''passwordHash'') of
        (StrV p, StrV h) \<Rightarrow> Inr (compare p h)
      | _ \<Rightarrow> Inl (Error ''data and hash arguments required''))"

definition models :: "(string \<Rightarrow> string \<Rightarrow> string) \<Rightarrow> model list" where
  "models hash = [User hash, DataItem, DataItemVersion, QueueItem]"

section \<open>Creating, updating and destroying instances\<close>

text \<open>
  \<open>Model.build\<close>: an instance holds the given value of each declared attribute and
  the \<open>defaultValue\<close> of one that is not given; keys that are no attribute of the model
  are dropped, and an attribute neither given nor defaulted stays undefined. The primary
  key and the time stamps are not attributes of \<open>Model.init\<close>: they are generated.
\<close>

definition build :: "attribute list \<Rightarrow> row \<Rightarrow> row" where
  "build attrs vals =
     foldr (\<lambda>a r. case map_of vals (field a) of
                     Some v \<Rightarrow> (field a, v) # r
                   | None \<Rightarrow> (case defaultValue a of Some d \<Rightarrow> (field a, d) # r | None \<Rightarrow> r))
       attrs []"

text \<open>
  Validation of an instance against the model: \<open>allowNull: false\<close> refuses null and
  undefined; \<open>notEmpty\<close> refuses a string of white space only (the validator's regular
  expression is \<open>^[\s\t\r\n]*$\<close>) and is not run on null. The error names the first
  attribute that fails.
\<close>

definition is_space :: "char \<Rightarrow> bool" where
  "is_space c = (c \<in> set [CHR '' '', CHR 0x09, CHR 0x0A, CHR 0x0B, CHR 0x0C, CHR 0x0D, CHR 0xA0])"

fun blank :: "val \<Rightarrow> bool" where
  "blank (StrV s) = list_all is_space s"
| "blank _ = False"

definition validate :: "attribute list \<Rightarrow> row \<Rightarrow> error option" where
  "validate attrs inst =
     (case find (\<lambda>a. \<not> allowNull a \<and> get inst (field a) = Null) attrs of
        Some a \<Rightarrow> Some (ValidationError (field a))
      | None \<Rightarrow>
     (case find (\<lambda>a. notEmpty a \<and> blank (get inst (field a))) attrs of
        Some a \<Rightarrow> Some (ValidationError (field a))
      | None \<Rightarrow> None))"

text \<open>
  What is sent to the table: every attribute of the instance but the \<open>VIRTUAL\<close> ones.
\<close>

definition is_virtual :: "attribute list \<Rightarrow> string \<Rightarrow> bool" where
  "is_virtual attrs k = (\<exists>a \<in> set attrs. field a = k \<and> type a = VIRTUAL)"

definition persisted :: "attribute list \<Rightarrow> row \<Rightarrow> row" where
  "persisted attrs inst = filter (\<lambda>(k, v). \<not> is_virtual attrs k) inst"

text \<open>
  The table's side. A row sent to the table is refused when it names a column the table
  does not have, leaves a \<open>NOT NULL\<close> column without a value, repeats a value of a
  unique or primary-key column, or references a row that does not exist. The stored row
  has every column of the table, a column that was not sent at its default, or
  \<open>NULL\<close>.

  Nothing in the sources checks a value against the type of its attribute: no attribute
  has a validator for it, and the library validates only what \<open>validate\<close> and
  \<open>allowNull\<close> say. So the strings listed by an \<open>ENUM\<close> are a declaration to the
  storage and no check of the model: a string outside the list reaches the table like
  any other, and is stored wherever the column is a text column, as it is on SQLite
  (a storage with an enumerated type, such as PostgreSQL, refuses it). The sources do
  not fix the storage; the embedding keeps the string, and \<open>conforms\<close> does not look at
  the list.

  A value of another kind than the column's type (a string for an \<open>INTEGER\<close>, a number
  for a \<open>DATE\<close>) is converted by one storage and refused by another. The embedding
  follows neither: such a write ends with \<open>Unmodelled\<close> and leaves the database as it
  was, so that what is proved of a write that succeeds is proved of values of the
  declared kinds.
\<close>

fun conforms :: "data_type \<Rightarrow> val \<Rightarrow> bool" where
  "conforms t Null = True"
| "conforms INTEGER (IntV n) = True"
| "conforms STRING (StrV s) = True"
| "conforms TEXT (StrV s) = True"
| "conforms BOOLEAN (BoolV b) = True"
| "conforms DATE (DateV d) = True"
| "conforms (ENUM vs) (StrV s) = True"
| "conforms t v = False"

definition stored :: "attribute list \<Rightarrow> row \<Rightarrow> row" where
  "stored cols sent =
     map (\<lambda>c. (field c, case map_of sent (field c) of
                          Some v \<Rightarrow> v
                        | None \<Rightarrow> (case defaultValue c of Some d \<Rightarrow> d | None \<Rightarrow> Null))) cols"

definition column_values :: "string \<Rightarrow> row list \<Rightarrow> val list" where
  "column_values k rs = map (\<lambda>r. get r k) rs"

definition write_error ::
    "attribute list \<Rightarrow> (string \<Rightarrow> row list) \<Rightarrow> row list \<Rightarrow> row \<Rightarrow> error option" where
  "write_error cols tabs others sent =
     (case find (\<lambda>(k, v). find (\<lambda>c. field c = k) cols = None) sent of
        Some (k, v) \<Rightarrow> Some (DatabaseError k)
      | None \<Rightarrow>
     (let r = stored cols sent in
      case find (\<lambda>c. \<not> allowNull c \<and> get r (field c) = Null) cols of
        Some c \<Rightarrow> Some (DatabaseError (field c))
      | None \<Rightarrow>
     (case find (\<lambda>c. \<not> conforms (type c) (get r (field c))) cols of
        Some c \<Rightarrow> Some (Unmodelled (field c))
      | None \<Rightarrow>
     (case find (\<lambda>c. (unique c \<or> primaryKey c) \<and> get r (field c) \<noteq> Null
                      \<and> get r (field c) \<in> set (column_values (field c) others)) cols of
        Some c \<Rightarrow> Some (UniqueConstraintError (field c))
      | None \<Rightarrow>
     (case find (\<lambda>c. case references c of
                        None \<Rightarrow> False
                      | Some (t, k) \<Rightarrow> get r (field c) \<noteq> Null
                          \<and> get r (field c) \<notin> set (column_values k (tabs t))) cols of
        Some c \<Rightarrow> Some (ForeignKeyConstraintError (field c))
      | None \<Rightarrow> None)))))"

text \<open>
  The database: the rows of each table, in insertion order, and the last value each
  table's auto-increment counter gave out.
\<close>

record database =
  tables :: "string \<Rightarrow> row list"
  sequences :: "string \<Rightarrow> int"

definition empty_database :: database where
  "empty_database = \<lparr>tables = (\<lambda>t. []), sequences = (\<lambda>t. 0)\<rparr>"

text \<open>
  \<open>Model.create(vals)\<close> at time \<open>now\<close>: build, the hook, validation, then the insert.
  A failure leaves the database as it was. The result is the row as stored.
\<close>

definition Model_create ::
    "model \<Rightarrow> nat \<Rightarrow> string \<Rightarrow> database \<Rightarrow> row \<Rightarrow> (error + row) \<times> database" where
  "Model_create m now salt db vals =
     (case beforeValidate m salt (build (attributes m) vals) of
        Inl e \<Rightarrow> (Inl e, db)
      | Inr inst \<Rightarrow>
     (case validate (attributes m) inst of
        Some e \<Rightarrow> (Inl e, db)
      | None \<Rightarrow>
     (let t = tableName m;
          sent = (''id'', IntV (sequences db t + 1)) # persisted (attributes m) inst
                   @ [(''createdAt'', DateV now), (''updatedAt'', DateV now)]
      in case write_error (columns m) (tables db) (tables db t) sent of
           Some e \<Rightarrow> (Inl e, db)
         | None \<Rightarrow>
             (Inr (stored (columns m) sent),
              db\<lparr>tables := (tables db)(t := tables db t @ [stored (columns m) sent]),
                 sequences := (sequences db)(t := sequences db t + 1)\<rparr>))))"

text \<open>
  \<open>instance.update(changes)\<close> on the row with primary key \<open>i\<close>: the declared
  attributes named in \<open>changes\<close> are set on the instance and the hook runs; only the
  attributes named are validated and written (\<open>save\<close> with the changed attributes as
  its \<open>fields\<close>), the virtual ones left out, with a new \<open>updatedAt\<close>. The row as
  written is under the same constraints as an inserted one (uniqueness against the other
  rows). No such row: nothing happens.
\<close>

definition changed_attributes :: "attribute list \<Rightarrow> row \<Rightarrow> attribute list" where
  "changed_attributes attrs changes = filter (\<lambda>a. map_of changes (field a) \<noteq> None) attrs"

definition set_attributes :: "attribute list \<Rightarrow> row \<Rightarrow> row \<Rightarrow> row" where
  "set_attributes attrs changes r =
     fold (\<lambda>a r. case map_of changes (field a) of Some v \<Rightarrow> put (field a) v r | None \<Rightarrow> r)
       attrs r"

definition written :: "attribute list \<Rightarrow> row \<Rightarrow> row \<Rightarrow> row" where
  "written changed inst old =
     fold (\<lambda>a r. put (field a) (get inst (field a)) r)
       (filter (\<lambda>a. type a \<noteq> VIRTUAL) changed) old"

definition Model_update ::
    "model \<Rightarrow> nat \<Rightarrow> string \<Rightarrow> database \<Rightarrow> int \<Rightarrow> row \<Rightarrow> (error + row option) \<times> database" where
  "Model_update m now salt db i changes =
     (let t = tableName m; changed = changed_attributes (attributes m) changes in
      case find (\<lambda>r. get r ''id'' = IntV i) (tables db t) of
        None \<Rightarrow> (Inr None, db)
      | Some r \<Rightarrow>
     (case beforeValidate m salt (set_attributes changed changes r) of
        Inl e \<Rightarrow> (Inl e, db)
      | Inr inst \<Rightarrow>
     (case validate changed inst of
        Some e \<Rightarrow> (Inl e, db)
      | None \<Rightarrow>
     (let sent = put ''updatedAt'' (DateV now) (written changed inst r);
          others = filter (\<lambda>r'. get r' ''id'' \<noteq> IntV i) (tables db t)
      in case write_error (columns m) (tables db) others sent of
           Some e \<Rightarrow> (Inl e, db)
         | None \<Rightarrow>
             (Inr (Some (stored (columns m) sent)),
              db\<lparr>tables := (tables db)(t :=
                   map (\<lambda>r'. if get r' ''id'' = IntV i then stored (columns m) sent else r')
                     (tables db t))\<rparr>)))))"

text \<open>
  Deleting a row of a table: every column of another table that references the table
  takes its \<open>onDelete\<close> action on the rows that hold the deleted key: \<open>CASCADE\<close>
  deletes them, \<open>SET NULL\<close> nulls the column and nothing else. No such row: nothing
  happens.
\<close>

definition on_delete :: "attribute list \<Rightarrow> string \<Rightarrow> row \<Rightarrow> row list \<Rightarrow> row list" where
  "on_delete cols parent deleted rs =
     fold (\<lambda>c rs. case references c of
                     None \<Rightarrow> rs
                   | Some (t, k) \<Rightarrow>
                       if t \<noteq> parent then rs
                       else (case onDelete c of
                               Some CASCADE \<Rightarrow> filter (\<lambda>r. get r (field c) \<noteq> get deleted k) rs
                             | Some SET_NULL \<Rightarrow>
                                 map (\<lambda>r. if get r (field c) = get deleted k
                                          then put (field c) Null r else r) rs
                             | None \<Rightarrow> rs))
       cols rs"

definition Model_destroy :: "model list \<Rightarrow> model \<Rightarrow> database \<Rightarrow> int \<Rightarrow> database" where
  "Model_destroy schema m db i =
     (case find (\<lambda>r. get r ''id'' = IntV i) (tables db (tableName m)) of
        None \<Rightarrow> db
      | Some deleted \<Rightarrow>
          db\<lparr>tables := (\<lambda>t.
               let rs = (if t = tableName m
                         then filter (\<lambda>r. get r ''id'' \<noteq> IntV i) (tables db t)
                         else tables db t)
               in case find (\<lambda>m'. tableName m' = t) schema of
                    None \<Rightarrow> rs
                  | Some m' \<Rightarrow> on_delete (columns m') (tableName m) deleted rs)\<rparr>)"

section \<open>Histories of requests\<close>

text \<open>
  A request names a model and creates, updates or destroys an instance of it; it comes
  with the clock's reading and the salt drawn for it. The states of the database are
  those a list of requests leads to from the empty database.
\<close>

datatype request =
    Create string nat string row
  | Update string nat string int row
  | Destroy string int

definition model_named :: "(string \<Rightarrow> string \<Rightarrow> string) \<Rightarrow> string \<Rightarrow> model option" where
  "model_named hash n = find (\<lambda>m. modelName m = n) (models hash)"

fun exec :: "(string \<Rightarrow> string \<Rightarrow> string) \<Rightarrow> request \<Rightarrow> database \<Rightarrow> database" where
  "exec hash (Create n now salt vals) db =
     (case model_named hash n of
        None \<Rightarrow> db
      | Some m \<Rightarrow> snd (Model_create m now salt db vals))"
| "exec hash (Update n now salt i changes) db =
     (case model_named hash n of
        None \<Rightarrow> db
      | Some m \<Rightarrow> snd (Model_update m now salt db i changes))"
| "exec hash (Destroy n i) db =
     (case model_named hash n of
        None \<Rightarrow> db
      | Some m \<Rightarrow> Model_destroy (models hash) m db i)"

definition run :: "(string \<Rightarrow> string \<Rightarrow> string) \<Rightarrow> request list \<Rightarrow> database" where
  "run hash reqs = fold (exec hash) reqs empty_database"

section \<open>The lease queue of the spec\<close>

text \<open>
  Modelled from the spec: the request layer that leases and completes work items (the
  routes that src/backend/app.js mounts under /api/queue and /api/items) is missing
  from the sources. The four operations of the spec's section 4.1 are written from its
  words: a LeaseRecord per WorkItem id with a status of exactly three values, the version
  trail of section 4.2, and the error kinds of section 7. A user is the resolved
  identity of section 6 (id and admin flag).
\<close>

datatype lease_status = pending | leased | completed

record LeaseRecord =
  status :: lease_status
  leasedBy :: "nat option"
  leasedAt :: "nat option"
  completedBy :: "nat option"
  completedAt :: "nat option"

record VersionRecord =
  workItem :: nat
  sequence :: nat
  correctedFields :: row
  actingUser :: nat

record identity =
  userId :: nat
  isAdmin :: bool

record queue_state =
  workItems :: "nat list"
  leases :: "nat \<Rightarrow> LeaseRecord option"
  versions :: "VersionRecord list"

datatype queue_error =
  NoWorkAvailable | NotLeased | LeaseOwnershipMismatch | DuplicateLease | StorageFailure

text \<open>
  Modelled from the spec: CreateForItem materializes the LeaseRecord of a WorkItem at
  status pending, and fails with DuplicateLease if one exists.
\<close>

definition CreateForItem :: "nat \<Rightarrow> queue_state \<Rightarrow> (queue_error + LeaseRecord) \<times> queue_state" where
  "CreateForItem w st =
     (case leases st w of
        Some l \<Rightarrow> (Inl DuplicateLease, st)
      | None \<Rightarrow>
          (let l = \<lparr>status = pending, leasedBy = None, leasedAt = None,
                     completedBy = None, completedAt = None\<rparr>
           in (Inr l, st\<lparr>workItems := workItems st @ [w], leases := (leases st)(w \<mapsto> l)\<rparr>)))"

text \<open>
  Modelled from the spec: AcquireNext takes the pending WorkItem of least id, makes it
  leased by the requesting user at the current time, or signals NoWorkAvailable.
\<close>

definition is_pending :: "queue_state \<Rightarrow> nat \<Rightarrow> bool" where
  "is_pending st w = (case leases st w of Some l \<Rightarrow> status l = pending | None \<Rightarrow> False)"

definition AcquireNext ::
    "nat \<Rightarrow> identity \<Rightarrow> queue_state \<Rightarrow> (queue_error + nat \<times> LeaseRecord) \<times> queue_state" where
  "AcquireNext now user st =
     (case find (is_pending st) (sort (workItems st)) of
        None \<Rightarrow> (Inl NoWorkAvailable, st)
      | Some w \<Rightarrow>
          (case leases st w of
             None \<Rightarrow> (Inl NoWorkAvailable, st)
           | Some l \<Rightarrow>
               (let l' = l\<lparr>status := leased, leasedBy := Some (userId user),
                            leasedAt := Some now\<rparr>
                in (Inr (w, l'), st\<lparr>leases := (leases st)(w \<mapsto> l')\<rparr>))))"

text \<open>
  Modelled from the spec: Release returns a leased item to pending, clearing the leasing
  user and time, for the lease holder or an admin; NotLeased if the status is not leased,
  LeaseOwnershipMismatch for another caller.
\<close>

definition Release :: "nat \<Rightarrow> identity \<Rightarrow> queue_state \<Rightarrow> (queue_error + unit) \<times> queue_state" where
  "Release w user st =
     (case leases st w of
        None \<Rightarrow> (Inl NotLeased, st)
      | Some l \<Rightarrow>
          if status l \<noteq> leased then (Inl NotLeased, st)
          else if leasedBy l \<noteq> Some (userId user) \<and> \<not> isAdmin user
               then (Inl LeaseOwnershipMismatch, st)
          else (Inr (), st\<lparr>leases :=
                  (leases st)(w \<mapsto> l\<lparr>status := pending, leasedBy := None, leasedAt := None\<rparr>)\<rparr>))"

text \<open>
  Modelled from the spec: Complete is valid only from leased and only for the lease
  holder or an admin. As one unit it appends a VersionRecord with sequence = previous
  max + 1 for that WorkItem and makes the LeaseRecord completed, with the completing user
  and time. NotLeased if the status is not leased; LeaseOwnershipMismatch as for Release.
  On failure nothing changes.
\<close>

definition previous_max :: "nat \<Rightarrow> VersionRecord list \<Rightarrow> nat" where
  "previous_max w vs = fold max (map sequence (filter (\<lambda>v. workItem v = w) vs)) 0"

definition Complete ::
    "nat \<Rightarrow> nat \<Rightarrow> identity \<Rightarrow> row \<Rightarrow> queue_state \<Rightarrow> (queue_error + VersionRecord) \<times> queue_state" where
  "Complete now w user corrected st =
     (case leases st w of
        None \<Rightarrow> (Inl NotLeased, st)
      | Some l \<Rightarrow>
          if status l \<noteq> leased then (Inl NotLeased, st)
          else if leasedBy l \<noteq> Some (userId user) \<and> \<not> isAdmin user
               then (Inl LeaseOwnershipMismatch, st)
          else (let v = \<lparr>workItem = w, sequence = previous_max w (versions st) + 1,
                          correctedFields = corrected, actingUser = userId user\<rparr>
                in (Inr v,
                    st\<lparr>leases := (leases st)(w \<mapsto>
                           l\<lparr>status := completed, completedBy := Some (userId user),
                              completedAt := Some now\<rparr>),
                       versions := versions st @ [v]\<rparr>)))"

datatype queue_op =
    OpCreateForItem nat
  | OpAcquireNext nat identity
  | OpRelease nat identity
  | OpComplete nat nat identity row

fun apply_op :: "queue_op \<Rightarrow> queue_state \<Rightarrow> queue_state" where
  "apply_op (OpCreateForItem w) st = snd (CreateForItem w st)"
| "apply_op (OpAcquireNext now user) st = snd (AcquireNext now user st)"
| "apply_op (OpRelease w user) st = snd (Release w user st)"
| "apply_op (OpComplete now w user corrected) st = snd (Complete now w user corrected st)"

definition empty_queue :: queue_state where
  "empty_queue = \<lparr>workItems = [], leases = (\<lambda>w. None), versions = []\<rparr>"

text \<open>
  The scenario of the spec's section 8: WorkItem 1 is given its LeaseRecord, a reviewer
  acquires it and completes it with an accession id.
\<close>

definition reviewer :: identity where
  "reviewer = \<lparr>userId = 7, isAdmin = False\<rparr>"

definition queue_created :: queue_state where
  "queue_created = apply_op (OpCreateForItem 1) empty_queue"

definition queue_leased :: queue_state where
  "queue_leased = apply_op (OpAcquireNext 5 reviewer) queue_created"

definition queue_completed :: queue_state where
  "queue_completed =
     apply_op (OpComplete 6 1 reviewer [(''accessionId'', StrV ''ABC-123'')]) queue_leased"

section \<open>Histories used as examples, and an invariant\<close>

text \<open>
  Stand-ins for bcrypt in examples: the hash is the salt followed by the password, and
  compare accepts a hash that ends with the password.
\<close>

definition example_hash :: "string \<Rightarrow> string \<Rightarrow> string" where
  "example_hash p s = s @ p"

definition example_compare :: "string \<Rightarrow> string \<Rightarrow> bool" where
  "example_compare p h = (drop (length h - length p) h = p)"

text \<open>
  The history of src/backend/__tests__/models.test.js: two users (lines 14 and 37), a
  data item (line 38), a version of it (lines 45 to 50) and a queue item leased by the
  second user (lines 62 to 67).
\<close>

definition test_history :: "request list" where
  "test_history =
    [Create ''User'' 1 ''salt1''
       [(''username'', StrV ''testuser''), (''password'', StrV ''password123'')],
     Create ''User'' 2 ''salt2''
       [(''username'', StrV ''assoc_user''), (''password'', StrV ''password123'')],
     Create ''DataItem'' 3 []
       [(''originalLine'', StrV ''test line'')],
     Create ''DataItemVersion'' 4 []
       [(''dataItemId'', IntV 1), (''changedByUserId'', IntV 2), (''version'', IntV 1),
        (''accessionId'', StrV ''ABC-123'')],
     Create ''QueueItem'' 5 []
       [(''dataItemId'', IntV 1), (''status'', StrV ''leased''), (''leasedById'', IntV 2),
        (''leasedAt'', DateV 5)]]"

text \<open>The history of one ingested data item (line 38 of the test file alone).\<close>

definition ingest_history :: "request list" where
  "ingest_history = [Create ''DataItem'' 3 [] [(''originalLine'', StrV ''test line'')]]"

text \<open>
  A history with an audit trail: a user, a data item, and two versions of the item by
  the user. The versions name no \<open>version\<close>: the table of the migration has no such
  column.
\<close>

definition audit_history :: "request list" where
  "audit_history =
    [Create ''User'' 1 ''salt1''
       [(''username'', StrV ''testuser''), (''password'', StrV ''password123'')],
     Create ''DataItem'' 2 []
       [(''originalLine'', StrV ''test line'')],
     Create ''DataItemVersion'' 3 []
       [(''dataItemId'', IntV 1), (''changedByUserId'', IntV 1)],
     Create ''DataItemVersion'' 4 []
       [(''dataItemId'', IntV 1), (''changedByUserId'', IntV 1)]]"

text \<open>
  The test file does not run the migrations: \<open>sequelize.sync({ force: true })\<close> (line 5)
  builds each table from its model: the primary key, the attributes that are not virtual,
  each with the options of \<open>Model.init\<close>, and the two time stamps. (The foreign keys it
  adds from the associations are left out; they only refuse more rows.)
  \<open>DataItemVersion_synced\<close> is the model DataItemVersion on the table so built.
\<close>

definition sync :: "attribute list \<Rightarrow> attribute list" where
  "sync attrs =
     (attr ''id'' INTEGER)\<lparr>allowNull := False, autoIncrement := True, primaryKey := True\<rparr>
       # filter (\<lambda>a. type a \<noteq> VIRTUAL) attrs
       @ [(attr ''createdAt'' DATE)\<lparr>allowNull := False\<rparr>,
          (attr ''updatedAt'' DATE)\<lparr>allowNull := False\<rparr>]"

definition DataItemVersion_synced :: model where
  "DataItemVersion_synced = DataItemVersion\<lparr>columns := sync DataItemVersion_attributes\<rparr>"

text \<open>
  On that table, after the user and the data item of the audit history: the same version
  of data item 1, numbered 1, created twice.
\<close>

definition numbered_version :: row where
  "numbered_version = [(''dataItemId'', IntV 1), (''changedByUserId'', IntV 1), (''version'', IntV 1)]"

definition numbered_twice :: "(string \<Rightarrow> string \<Rightarrow> string) \<Rightarrow> database" where
  "numbered_twice hash =
     snd (Model_create DataItemVersion_synced 4 []
       (snd (Model_create DataItemVersion_synced 3 [] (run hash (take 2 audit_history))
          numbered_version))
       numbered_version)"

text \<open>
  Every table's primary keys are distinct, and none exceeds what the table's counter has
  given out.
\<close>

definition ids_consistent :: "database \<Rightarrow> bool" where
  "ids_consistent db =
     (\<forall>T. distinct (column_values ''id'' (tables db T))
        \<and> (\<forall>v \<in> set (column_values ''id'' (tables db T)). \<exists>n. v = IntV n \<and> n \<le> sequences db T))"

section \<open>Rows, instances and the checks of a write\<close>

lemma get_put: "get (put k v r) k' = (if k' = k then v else get r k')"
  by (simp add: get_def put_def update_conv')

lemma map_of_put: "map_of (put k v r) = (map_of r)(k \<mapsto> v)"
  by (simp add: put_def update_conv')

lemma map_of_stored:
  "map_of (stored cols sent) k =
     (case find (\<lambda>c. field c = k) cols of
        None \<Rightarrow> None
      | Some c \<Rightarrow> Some (case map_of sent k of
                         Some v \<Rightarrow> v
                       | None \<Rightarrow> (case defaultValue c of Some d \<Rightarrow> d | None \<Rightarrow> Null)))"
  by (induction cols) (auto simp: stored_def)

lemma get_stored:
  "get (stored cols sent) k =
     (case find (\<lambda>c. field c = k) cols of
        None \<Rightarrow> Null
      | Some c \<Rightarrow> (case map_of sent k of
                    Some v \<Rightarrow> v
                  | None \<Rightarrow> (case defaultValue c of Some d \<Rightarrow> d | None \<Rightarrow> Null)))"
  by (simp add: get_def map_of_stored split: option.splits)

lemma build_Nil: "build [] vals = []"
  by (simp add: build_def)

lemma build_Cons:
  "build (a # as) vals =
     (case map_of vals (field a) of
        Some v \<Rightarrow> (field a, v) # build as vals
      | None \<Rightarrow> (case defaultValue a of
                   Some d \<Rightarrow> (field a, d) # build as vals
                 | None \<Rightarrow> build as vals))"
  unfolding build_def by simp

lemma map_of_build_None:
  "find (\<lambda>a. field a = k) attrs = None \<Longrightarrow> map_of (build attrs vals) k = None"
  by (induction attrs) (auto simp: build_Nil build_Cons split: option.splits if_splits)

lemma map_of_build:
  "distinct (map field attrs) \<Longrightarrow>
   map_of (build attrs vals) k =
     (case find (\<lambda>a. field a = k) attrs of
        None \<Rightarrow> None
      | Some a \<Rightarrow> (case map_of vals k of Some v \<Rightarrow> Some v | None \<Rightarrow> defaultValue a))"
proof (induction attrs)
  case Nil
  show ?case by (simp add: build_Nil)
next
  case (Cons a as)
  show ?case
  proof (cases "field a = k")
    case True
    have "find (\<lambda>a. field a = k) as = None"
    proof (rule ccontr)
      assume "find (\<lambda>a. field a = k) as \<noteq> None"
      then obtain x where "x \<in> set as" "field x = k"
        by (auto simp: find_None_iff)
      then have "k \<in> set (map field as)" by auto
      with Cons.prems True show False by simp
    qed
    then have "map_of (build as vals) k = None"
      by (rule map_of_build_None)
    with True show ?thesis
      by (auto simp: build_Cons split: option.splits)
  next
    case False
    with Cons show ?thesis
      by (auto simp: build_Cons split: option.splits)
  qed
qed

lemma map_of_persisted:
  "map_of (persisted attrs inst) k = (if is_virtual attrs k then None else map_of inst k)"
  by (induction inst) (auto simp: persisted_def)

lemma map_of_set_attributes:
  "map_of (set_attributes attrs changes r) k =
     (if k \<in> field ` set attrs \<and> map_of changes k \<noteq> None then map_of changes k else map_of r k)"
  unfolding set_attributes_def
  by (induction attrs arbitrary: r) (auto simp: map_of_put split: option.splits)

lemma map_of_written:
  "map_of (written changed inst old) k =
     (if k \<in> field ` set (filter (\<lambda>a. type a \<noteq> VIRTUAL) changed) then Some (get inst k)
      else map_of old k)"
proof -
  have general: "map_of (fold (\<lambda>a r. put (field a) (get inst (field a)) r) xs old) k =
     (if k \<in> field ` set xs then Some (get inst k) else map_of old k)"
    for xs :: "attribute list"
    by (induction xs arbitrary: old) (auto simp: map_of_put)
  show ?thesis unfolding written_def by (rule general)
qed

lemma changed_attributes_subset:
  "set (filter (\<lambda>a. type a \<noteq> VIRTUAL) (changed_attributes attrs changes)) \<subseteq> set attrs"
  by (auto simp: changed_attributes_def)

lemma changed_attribute:
  "a \<in> set attrs \<Longrightarrow> map_of changes (field a) = Some v \<Longrightarrow> type a \<noteq> VIRTUAL
     \<Longrightarrow> field a \<in> field ` set (filter (\<lambda>a. type a \<noteq> VIRTUAL) (changed_attributes attrs changes))"
  by (auto simp: changed_attributes_def)

lemma write_error_None:
  assumes "write_error cols tabs others sent = None" and "c \<in> set cols"
  shows "allowNull c \<or> get (stored cols sent) (field c) \<noteq> Null"
    and "conforms (type c) (get (stored cols sent) (field c))"
    and "unique c \<or> primaryKey c \<Longrightarrow> get (stored cols sent) (field c) = Null
           \<or> get (stored cols sent) (field c) \<notin> set (column_values (field c) others)"
    and "references c = Some (t, k) \<Longrightarrow> get (stored cols sent) (field c) = Null
           \<or> get (stored cols sent) (field c) \<in> set (column_values k (tabs t))"
    and "map_of sent k' \<noteq> None \<Longrightarrow> find (\<lambda>c. field c = k') cols \<noteq> None"
  using assms
  by (auto simp: write_error_def Let_def find_None_iff split: option.splits prod.splits dest!: map_of_SomeD)

lemma Model_create_Inl: "Model_create m now salt db vals = (Inl e, db') \<Longrightarrow> db' = db"
  by (auto simp: Model_create_def Let_def split: sum.splits option.splits)

lemma Model_create_Inr:
  assumes "Model_create m now salt db vals = (Inr r, db')"
  obtains inst sent where
    "beforeValidate m salt (build (attributes m) vals) = Inr inst"
    "validate (attributes m) inst = None"
    "sent = (''id'', IntV (sequences db (tableName m) + 1)) # persisted (attributes m) inst
              @ [(''createdAt'', DateV now), (''updatedAt'', DateV now)]"
    "write_error (columns m) (tables db) (tables db (tableName m)) sent = None"
    "r = stored (columns m) sent"
    "db' = db\<lparr>tables := (tables db)(tableName m := tables db (tableName m) @ [r]),
               sequences := (sequences db)(tableName m := sequences db (tableName m) + 1)\<rparr>"
  using assms
  by (auto simp: Model_create_def Let_def split: sum.splits option.splits)

lemma Model_update_Inl: "Model_update m now salt db i changes = (Inl e, db') \<Longrightarrow> db' = db"
  by (auto simp: Model_update_def Let_def split: sum.splits option.splits)

lemma Model_update_None: "Model_update m now salt db i changes = (Inr None, db') \<Longrightarrow> db' = db"
  by (auto simp: Model_update_def Let_def split: sum.splits option.splits)

lemma Model_update_Some:
  assumes "Model_update m now salt db i changes = (Inr (Some r), db')"
  obtains old inst sent where
    "find (\<lambda>r. get r ''id'' = IntV i) (tables db (tableName m)) = Some old"
    "beforeValidate m salt
       (set_attributes (changed_attributes (attributes m) changes) changes old) = Inr inst"
    "validate (changed_attributes (attributes m) changes) inst = None"
    "sent = put ''updatedAt'' (DateV now)
       (written (changed_attributes (attributes m) changes) inst old)"
    "write_error (columns m) (tables db)
       (filter (\<lambda>r'. get r' ''id'' \<noteq> IntV i) (tables db (tableName m))) sent = None"
    "r = stored (columns m) sent"
    "db' = db\<lparr>tables := (tables db)(tableName m :=
              map (\<lambda>r'. if get r' ''id'' = IntV i then r else r') (tables db (tableName m)))\<rparr>"
  using assms
  by (auto simp: Model_update_def Let_def split: sum.splits option.splits)


lemma on_delete_shape:
  "\<exists>g P. on_delete cols p d rs = map g (filter P rs)
     \<and> (\<forall>r k. (\<forall>c\<in>set cols. onDelete c = Some SET_NULL \<longrightarrow> field c \<noteq> k) \<longrightarrow> get (g r) k = get r k)"
proof (induction cols arbitrary: rs)
  case Nil
  have "on_delete [] p d rs = map (\<lambda>r. r) (filter (\<lambda>r. True) rs)"
    by (simp add: on_delete_def)
  then show ?case by blast
next
  case (Cons c cols)
  define step where "step = (\<lambda>rs. case references c of
                     None \<Rightarrow> rs
                   | Some (t, k) \<Rightarrow>
                       if t \<noteq> p then rs
                       else (case onDelete c of
                               Some CASCADE \<Rightarrow> filter (\<lambda>r. get r (field c) \<noteq> get d k) rs
                             | Some SET_NULL \<Rightarrow>
                                 map (\<lambda>r. if get r (field c) = get d k
                                          then put (field c) Null r else r) rs
                             | None \<Rightarrow> rs))"
  have unfold: "on_delete (c # cols) p d rs = on_delete cols p d (step rs)"
    by (simp add: on_delete_def step_def)
  have "\<exists>h Q. step rs = map h (filter Q rs)
          \<and> (\<forall>r k. (onDelete c = Some SET_NULL \<longrightarrow> field c \<noteq> k) \<longrightarrow> get (h r) k = get r k)"
  proof (cases "references c")
    case None
    then have "step rs = map (\<lambda>r. r) (filter (\<lambda>r. True) rs)" by (simp add: step_def)
    then show ?thesis by blast
  next
    case (Some tk)
    obtain t k where tk: "tk = (t, k)" by (cases tk)
    show ?thesis
    proof (cases "t \<noteq> p \<or> onDelete c = None")
      case True
      then have "step rs = map (\<lambda>r. r) (filter (\<lambda>r. True) rs)"
        using Some tk by (auto simp: step_def)
      then show ?thesis by blast
    next
      case False
      then obtain a where a: "onDelete c = Some a" and t: "t = p" by auto
      show ?thesis
      proof (cases a)
        case CASCADE
        then have "step rs = map (\<lambda>r. r) (filter (\<lambda>r. get r (field c) \<noteq> get d k) rs)"
          using Some tk a t by (simp add: step_def)
        then show ?thesis by blast
      next
        case SET_NULL
        then have "step rs = map (\<lambda>r. if get r (field c) = get d k then put (field c) Null r else r)
                     (filter (\<lambda>r. True) rs)"
          using Some tk a t by (simp add: step_def)
        moreover have "\<forall>r k'. (onDelete c = Some SET_NULL \<longrightarrow> field c \<noteq> k') \<longrightarrow>
            get (if get r (field c) = get d k then put (field c) Null r else r) k' = get r k'"
          using a SET_NULL by (simp add: get_put)
        ultimately show ?thesis by blast
      qed
    qed
  qed
  then obtain h Q where hQ: "step rs = map h (filter Q rs)"
    and h: "\<And>r k. (onDelete c = Some SET_NULL \<longrightarrow> field c \<noteq> k) \<Longrightarrow> get (h r) k = get r k"
    by blast
  from Cons.IH [of "step rs"] obtain g P where gP: "on_delete cols p d (step rs) = map g (filter P (step rs))"
    and g: "\<And>r k. (\<forall>c\<in>set cols. onDelete c = Some SET_NULL \<longrightarrow> field c \<noteq> k) \<Longrightarrow> get (g r) k = get r k"
    by blast
  have "on_delete (c # cols) p d rs = map g (filter P (map h (filter Q rs)))"
    using unfold gP hQ by simp
  then have "on_delete (c # cols) p d rs = map (g \<circ> h) (filter (\<lambda>r. Q r \<and> P (h r)) rs)"
    by (simp add: filter_map comp_def conj_commute)
  moreover have "\<forall>r k. (\<forall>c'\<in>set (c # cols). onDelete c' = Some SET_NULL \<longrightarrow> field c' \<noteq> k)
      \<longrightarrow> get ((g \<circ> h) r) k = get r k"
    by (simp add: g h)
  ultimately show ?case by blast
qed

lemma Model_destroy_sequences: "sequences (Model_destroy schema m db i) = sequences db"
  by (simp add: Model_destroy_def split: option.splits)

lemma Model_destroy_shape:
  "\<exists>g P. tables (Model_destroy schema m db i) T = map g (filter P (tables db T))
     \<and> (\<forall>r k. (\<forall>m'\<in>set schema. \<forall>c\<in>set (columns m'). onDelete c = Some SET_NULL \<longrightarrow> field c \<noteq> k)
            \<longrightarrow> get (g r) k = get r k)"
proof (cases "find (\<lambda>r. get r ''id'' = IntV i) (tables db (tableName m))")
  case None
  then have "tables (Model_destroy schema m db i) T = map (\<lambda>r. r) (filter (\<lambda>r. True) (tables db T))"
    by (simp add: Model_destroy_def)
  then show ?thesis by blast
next
  case (Some deleted)
  define Q where "Q = (\<lambda>r. T = tableName m \<longrightarrow> get r ''id'' \<noteq> IntV i)"
  have rs: "(if T = tableName m then filter (\<lambda>r. get r ''id'' \<noteq> IntV i) (tables db T) else tables db T)
      = filter Q (tables db T)"
    by (simp add: Q_def)
  show ?thesis
  proof (cases "find (\<lambda>m'. tableName m' = T) schema")
    case None
    then have "tables (Model_destroy schema m db i) T = map (\<lambda>r. r) (filter Q (tables db T))"
      using Some rs by (simp add: Model_destroy_def Let_def)
    then show ?thesis by blast
  next
    case (Some m')
    then have m': "m' \<in> set schema" by (auto simp: find_Some_iff in_set_conv_nth)
    have eq: "tables (Model_destroy schema m db i) T
        = on_delete (columns m') (tableName m) deleted (filter Q (tables db T))"
      using \<open>find (\<lambda>r. get r ''id'' = IntV i) (tables db (tableName m)) = Some deleted\<close> Some rs
      by (simp add: Model_destroy_def Let_def)
    from on_delete_shape [of "columns m'" "tableName m" deleted "filter Q (tables db T)"]
    obtain g P where gP: "on_delete (columns m') (tableName m) deleted (filter Q (tables db T))
         = map g (filter P (filter Q (tables db T)))"
      and g: "\<And>r k. (\<forall>c\<in>set (columns m'). onDelete c = Some SET_NULL \<longrightarrow> field c \<noteq> k) \<Longrightarrow> get (g r) k = get r k"
      by blast
    have "tables (Model_destroy schema m db i) T = map g (filter (\<lambda>r. Q r \<and> P r) (tables db T))"
      by (simp add: eq gP conj_commute)
    moreover have "\<forall>r k. (\<forall>m'\<in>set schema. \<forall>c\<in>set (columns m'). onDelete c = Some SET_NULL \<longrightarrow> field c \<noteq> k)
            \<longrightarrow> get (g r) k = get r k"
      using g m' by blast
    ultimately show ?thesis by blast
  qed
qed

lemma Model_destroy_column:
  assumes "\<forall>m'\<in>set schema. \<forall>c\<in>set (columns m'). onDelete c = Some SET_NULL \<longrightarrow> field c \<noteq> k"
  shows "\<exists>P. column_values k (tables (Model_destroy schema m db i) T)
           = column_values k (filter P (tables db T))"
proof -
  from Model_destroy_shape [of schema m db i T] assms
  obtain g P where "tables (Model_destroy schema m db i) T = map g (filter P (tables db T))"
    and "\<And>r. get (g r) k = get r k"
    by blast
  then have "column_values k (tables (Model_destroy schema m db i) T)
           = column_values k (filter P (tables db T))"
    by (simp add: column_values_def)
  then show ?thesis by blast
qed

section \<open>Facts of the declarations\<close>

lemma model_named_in_models: "model_named hash n = Some m \<Longrightarrow> m \<in> set (models hash)"
  by (auto simp: model_named_def find_Some_iff in_set_conv_nth)

lemma set_models: "set (models hash) = {User hash, DataItem, DataItemVersion, QueueItem}"
  by (simp add: models_def)

lemma models_cases:
  assumes "m \<in> set (models hash)"
  obtains "m = User hash" | "m = DataItem" | "m = DataItemVersion" | "m = QueueItem"
  using assms by (auto simp: set_models)

lemma model_simps:
  "tableName (User hash) = ''Users''" "columns (User hash) = Users_table"
  "attributes (User hash) = User_attributes" "beforeValidate (User hash) = User_beforeValidate hash"
  "tableName DataItem = ''DataItems''" "columns DataItem = DataItems_table"
  "attributes DataItem = DataItem_attributes" "beforeValidate DataItem = (\<lambda>salt inst. Inr inst)"
  "tableName DataItemVersion = ''DataItemVersions''" "columns DataItemVersion = DataItemVersions_table"
  "attributes DataItemVersion = DataItemVersion_attributes"
  "beforeValidate DataItemVersion = (\<lambda>salt inst. Inr inst)"
  "tableName QueueItem = ''QueueItems''" "columns QueueItem = QueueItems_table"
  "attributes QueueItem = QueueItem_attributes" "beforeValidate QueueItem = (\<lambda>salt inst. Inr inst)"
  by (simp_all add: User_def DataItem_def DataItemVersion_def QueueItem_def)

lemma models_id_column:
  "m \<in> set (models hash) \<Longrightarrow> \<exists>c. find (\<lambda>c. field c = ''id'') (columns m) = Some c"
  by (auto simp: set_models model_simps Users_table_def DataItems_table_def
        DataItemVersions_table_def QueueItems_table_def attr_def)


lemma attribute_fields:
  "map field QueueItem_attributes =
     [''dataItemId'', ''status'', ''leasedById'', ''leasedAt'', ''completedById'', ''completedAt'']"
  "map field DataItemVersion_attributes =
     [''dataItemId'', ''version'', ''accessionId'', ''stain'', ''blockNumber'', ''isComplete'',
      ''changedByUserId'']"
  "map field DataItem_attributes =
     [''originalLine'', ''identifier'', ''originalLabelText'', ''originalMacroText'',
      ''accessionId'', ''stain'', ''blockNumber'', ''isComplete'', ''imageIdentifier'']"
  "map field User_attributes =
     [''username'', ''password'', ''passwordHash'', ''correctionCount'', ''isAdmin'']"
  by (simp_all add: QueueItem_attributes_def DataItemVersion_attributes_def
        DataItem_attributes_def User_attributes_def attr_def)

lemma is_virtual_iff:
  "is_virtual attrs k = (k \<in> set (map field (filter (\<lambda>a. type a = VIRTUAL) attrs)))"
  by (auto simp: is_virtual_def)

lemma virtual_attributes:
  "filter (\<lambda>a. type a = VIRTUAL) QueueItem_attributes = []"
  "filter (\<lambda>a. type a = VIRTUAL) DataItemVersion_attributes = []"
  "filter (\<lambda>a. type a = VIRTUAL) DataItem_attributes = []"
  "map field (filter (\<lambda>a. type a = VIRTUAL) User_attributes) = [''password'']"
  by (simp_all add: QueueItem_attributes_def DataItemVersion_attributes_def
        DataItem_attributes_def User_attributes_def attr_def)

lemma models_id_not_attribute:
  assumes "m \<in> set (models hash)"
  shows "''id'' \<notin> field ` set (attributes m)" and "\<not> is_virtual (attributes m) ''id''"
proof -
  have "''id'' \<notin> set (map field (attributes m))"
    using assms by (cases rule: models_cases) (simp_all add: model_simps attribute_fields)
  then show "''id'' \<notin> field ` set (attributes m)" by simp
  show "\<not> is_virtual (attributes m) ''id''"
    using assms
    by (cases rule: models_cases) (simp_all add: model_simps is_virtual_iff virtual_attributes)
qed

lemma set_null_columns:
  "map field (filter (\<lambda>c. onDelete c = Some SET_NULL) Users_table) = []"
  "map field (filter (\<lambda>c. onDelete c = Some SET_NULL) DataItems_table) = []"
  "map field (filter (\<lambda>c. onDelete c = Some SET_NULL) DataItemVersions_table) = []"
  "map field (filter (\<lambda>c. onDelete c = Some SET_NULL) QueueItems_table)
     = [''leasedById'', ''completedById'']"
  by (simp_all add: Users_table_def DataItems_table_def DataItemVersions_table_def
        QueueItems_table_def attr_def)

lemma models_set_null:
  assumes "m \<in> set (models hash)" "c \<in> set (columns m)" "onDelete c = Some SET_NULL"
  shows "field c = ''leasedById'' \<or> field c = ''completedById''"
proof -
  have "field c \<in> set (map field (filter (\<lambda>c. onDelete c = Some SET_NULL) (columns m)))"
    using assms by auto
  with assms(1) show ?thesis
    by (cases rule: models_cases) (simp_all add: model_simps set_null_columns)
qed

lemma run_Nil: "run hash [] = empty_database"
  by (simp add: run_def)

lemma run_snoc: "run hash (reqs @ [q]) = exec hash q (run hash reqs)"
  by (simp add: run_def)

section \<open>Primary keys\<close>

lemma created_id:
  assumes "m \<in> set (models hash)"
    and "sent = (''id'', IntV n) # rest"
  shows "get (stored (columns m) sent) ''id'' = IntV n"
  using models_id_column [OF assms(1)] assms(2) by (auto simp: get_stored)

lemma Model_create_ids:
  assumes inv: "ids_consistent db" and m: "m \<in> set (models hash)"
  shows "ids_consistent (snd (Model_create m now salt db vals))"
proof (cases "Model_create m now salt db vals")
  case (Pair res db')
  show ?thesis
  proof (cases res)
    case (Inl e)
    with Pair inv show ?thesis by (auto dest: Model_create_Inl)
  next
    case (Inr r)
    from Pair Inr have "Model_create m now salt db vals = (Inr r, db')" by simp
    then obtain inst sent :: row where
      sent: "sent = (''id'', IntV (sequences db (tableName m) + 1)) # persisted (attributes m) inst
              @ [(''createdAt'', DateV now), (''updatedAt'', DateV now)]"
      and r: "r = stored (columns m) sent"
      and db': "db' = db\<lparr>tables := (tables db)(tableName m := tables db (tableName m) @ [r]),
               sequences := (sequences db)(tableName m := sequences db (tableName m) + 1)\<rparr>"
      by (rule Model_create_Inr)
    have id: "get r ''id'' = IntV (sequences db (tableName m) + 1)"
      unfolding r by (rule created_id [OF m sent])
    have "ids_consistent db'"
      unfolding ids_consistent_def
    proof (intro allI conjI)
      fix T
      show "distinct (column_values ''id'' (tables db' T))"
        using inv id by (fastforce simp: db' ids_consistent_def column_values_def)
      show "\<forall>v\<in>set (column_values ''id'' (tables db' T)). \<exists>n. v = IntV n \<and> n \<le> sequences db' T"
        using inv id by (fastforce simp: db' ids_consistent_def column_values_def)
    qed
    with Pair show ?thesis by simp
  qed
qed

lemma updated_id:
  assumes m: "m \<in> set (models hash)"
    and old: "find (\<lambda>r. get r ''id'' = IntV i) rows = Some old"
    and sent: "sent = put ''updatedAt'' (DateV now)
       (written (changed_attributes (attributes m) changes) inst old)"
  shows "get (stored (columns m) sent) ''id'' = IntV i"
proof -
  from old have "get old ''id'' = IntV i" by (auto simp: find_Some_iff)
  then have "map_of old ''id'' = Some (IntV i)"
    by (auto simp: get_def split: option.splits)
  moreover have "''id'' \<notin> field ` set (filter (\<lambda>a. type a \<noteq> VIRTUAL)
      (changed_attributes (attributes m) changes))"
    using models_id_not_attribute(1) [OF m] changed_attributes_subset [of "attributes m" changes]
    by blast
  ultimately have "map_of sent ''id'' = Some (IntV i)"
    by (simp add: sent map_of_put map_of_written)
  then show ?thesis
    using models_id_column [OF m] by (auto simp: get_stored)
qed

lemma Model_update_ids:
  assumes inv: "ids_consistent db" and m: "m \<in> set (models hash)"
  shows "ids_consistent (snd (Model_update m now salt db i changes))"
proof (cases "Model_update m now salt db i changes")
  case (Pair res db')
  show ?thesis
  proof (cases res)
    case (Inl e)
    with Pair inv show ?thesis by (auto dest: Model_update_Inl)
  next
    case (Inr ro)
    show ?thesis
    proof (cases ro)
      case None
      with Pair Inr inv show ?thesis by (auto dest: Model_update_None)
    next
      case (Some r)
      from Pair Inr Some have "Model_update m now salt db i changes = (Inr (Some r), db')" by simp
      then obtain old inst sent :: row where
        old: "find (\<lambda>r. get r ''id'' = IntV i) (tables db (tableName m)) = Some old"
        and sent: "sent = put ''updatedAt'' (DateV now)
          (written (changed_attributes (attributes m) changes) inst old)"
        and r: "r = stored (columns m) sent"
        and db': "db' = db\<lparr>tables := (tables db)(tableName m :=
              map (\<lambda>r'. if get r' ''id'' = IntV i then r else r') (tables db (tableName m)))\<rparr>"
        by (rule Model_update_Some)
      have id: "get r ''id'' = IntV i"
        unfolding r by (rule updated_id [OF m old sent])
      have same: "column_values ''id'' (tables db' T) = column_values ''id'' (tables db T)" for T
        using id by (simp add: db' column_values_def)
      have seq: "sequences db' = sequences db"
        by (simp add: db')
      have "ids_consistent db'"
        using inv unfolding ids_consistent_def same seq .
      with Pair show ?thesis by simp
    qed
  qed
qed

lemma id_never_set_null:
  "\<forall>m'\<in>set (models hash). \<forall>c\<in>set (columns m'). onDelete c = Some SET_NULL \<longrightarrow> field c \<noteq> ''id''"
  using models_set_null by fastforce

lemma Model_destroy_ids:
  assumes inv: "ids_consistent db"
  shows "ids_consistent (Model_destroy (models hash) m db i)"
  unfolding ids_consistent_def
proof (intro allI)
  fix T
  from Model_destroy_column [OF id_never_set_null, of hash m db i T]
  obtain P where "column_values ''id'' (tables (Model_destroy (models hash) m db i) T)
           = column_values ''id'' (filter P (tables db T))" by blast
  then show "distinct (column_values ''id'' (tables (Model_destroy (models hash) m db i) T)) \<and>
         (\<forall>v\<in>set (column_values ''id'' (tables (Model_destroy (models hash) m db i) T)).
             \<exists>n. v = IntV n \<and> n \<le> sequences (Model_destroy (models hash) m db i) T)"
    using inv
    by (auto simp: ids_consistent_def column_values_def Model_destroy_sequences distinct_map_filter)
qed

lemma exec_ids: "ids_consistent db \<Longrightarrow> ids_consistent (exec hash q db)"
  by (cases q)
     (auto simp: Model_create_ids Model_update_ids Model_destroy_ids
        split: option.splits dest: model_named_in_models)

lemma run_ids: "ids_consistent (run hash reqs)"
proof (induction reqs rule: rev_induct)
  case Nil
  show ?case by (simp add: run_Nil ids_consistent_def empty_database_def column_values_def)
next
  case (snoc q reqs)
  then show ?case by (simp add: run_snoc exec_ids)
qed

section \<open>Queue items\<close>

lemma models_QueueItems:
  assumes "m \<in> set (models hash)" "tableName m = ''QueueItems''"
  shows "columns m = QueueItems_table" "attributes m = QueueItem_attributes"
    "beforeValidate m = (\<lambda>salt inst. Inr inst)"
  using assms by (cases rule: models_cases; simp add: model_simps)+

lemma models_not_QueueItems:
  "tableName (User hash) \<noteq> ''QueueItems''" "tableName DataItem \<noteq> ''QueueItems''"
  "tableName DataItemVersion \<noteq> ''QueueItems''"
  by (simp_all add: model_simps)

lemma QueueItems_columns:
  "find (\<lambda>c. field c = ''dataItemId'') QueueItems_table =
     Some ((attr ''dataItemId'' INTEGER)\<lparr>allowNull := False, unique := True,
        references := Some (''DataItems'', ''id''), onDelete := Some CASCADE\<rparr>)"
  "find (\<lambda>c. field c = ''status'') QueueItems_table =
     Some ((attr ''status'' (ENUM [''pending'', ''leased'', ''completed'']))\<lparr>allowNull := False,
        defaultValue := Some (StrV ''pending'')\<rparr>)"
  "find (\<lambda>c. field c = ''leasedById'') QueueItems_table =
     Some ((attr ''leasedById'' INTEGER)\<lparr>allowNull := True,
        references := Some (''Users'', ''id''), onDelete := Some SET_NULL\<rparr>)"
  "find (\<lambda>c. field c = ''leasedAt'') QueueItems_table = Some ((attr ''leasedAt'' DATE)\<lparr>allowNull := True\<rparr>)"
  "find (\<lambda>c. field c = ''completedById'') QueueItems_table =
     Some ((attr ''completedById'' INTEGER)\<lparr>allowNull := True,
        references := Some (''Users'', ''id''), onDelete := Some SET_NULL\<rparr>)"
  "find (\<lambda>c. field c = ''completedAt'') QueueItems_table = Some ((attr ''completedAt'' DATE)\<lparr>allowNull := True\<rparr>)"
  by (simp_all add: QueueItems_table_def attr_def)

lemma QueueItem_attribute:
  "find (\<lambda>a. field a = ''dataItemId'') QueueItem_attributes =
     Some ((attr ''dataItemId'' INTEGER)\<lparr>allowNull := False, unique := True\<rparr>)"
  "find (\<lambda>a. field a = ''status'') QueueItem_attributes =
     Some ((attr ''status'' (ENUM [''pending'', ''leased'', ''completed'']))\<lparr>allowNull := False,
        defaultValue := Some (StrV ''pending'')\<rparr>)"
  "find (\<lambda>a. field a = ''leasedById'') QueueItem_attributes = Some (attr ''leasedById'' INTEGER)"
  "find (\<lambda>a. field a = ''leasedAt'') QueueItem_attributes = Some (attr ''leasedAt'' DATE)"
  "find (\<lambda>a. field a = ''completedById'') QueueItem_attributes = Some (attr ''completedById'' INTEGER)"
  "find (\<lambda>a. field a = ''completedAt'') QueueItem_attributes = Some (attr ''completedAt'' DATE)"
  by (simp_all add: QueueItem_attributes_def attr_def)

lemma QueueItem_built:
  "map_of (build QueueItem_attributes vals) ''dataItemId'' = map_of vals ''dataItemId''"
  "map_of (build QueueItem_attributes vals) ''status'' =
     (case map_of vals ''status'' of Some v \<Rightarrow> Some v | None \<Rightarrow> Some (StrV ''pending''))"
  "map_of (build QueueItem_attributes vals) ''leasedById'' = map_of vals ''leasedById''"
  "map_of (build QueueItem_attributes vals) ''leasedAt'' = map_of vals ''leasedAt''"
  "map_of (build QueueItem_attributes vals) ''completedById'' = map_of vals ''completedById''"
  "map_of (build QueueItem_attributes vals) ''completedAt'' = map_of vals ''completedAt''"
  by (simp_all add: map_of_build attribute_fields QueueItem_attribute attr_def split: option.splits)

lemma QueueItem_sent:
  assumes "sent = (''id'', IntV n) # persisted QueueItem_attributes inst
              @ [(''createdAt'', DateV now), (''updatedAt'', DateV now)]"
  shows "map_of sent ''dataItemId'' = map_of inst ''dataItemId''"
    "map_of sent ''status'' = map_of inst ''status''"
    "map_of sent ''leasedById'' = map_of inst ''leasedById''"
    "map_of sent ''leasedAt'' = map_of inst ''leasedAt''"
    "map_of sent ''completedById'' = map_of inst ''completedById''"
    "map_of sent ''completedAt'' = map_of inst ''completedAt''"
    "map_of sent ''id'' = Some (IntV n)"
  unfolding assms
  by (simp_all add: map_of_persisted is_virtual_iff virtual_attributes map_add_def
        split: option.splits)

lemma QueueItem_stored:
  "get (stored QueueItems_table sent) ''dataItemId'' = get sent ''dataItemId''"
  "get (stored QueueItems_table sent) ''status'' =
     (case map_of sent ''status'' of Some v \<Rightarrow> v | None \<Rightarrow> StrV ''pending'')"
  "get (stored QueueItems_table sent) ''leasedById'' = get sent ''leasedById''"
  "get (stored QueueItems_table sent) ''leasedAt'' = get sent ''leasedAt''"
  "get (stored QueueItems_table sent) ''completedById'' = get sent ''completedById''"
  "get (stored QueueItems_table sent) ''completedAt'' = get sent ''completedAt''"
  by (simp_all add: get_def map_of_stored QueueItems_columns attr_def split: option.splits)

lemma distinct_replace:
  assumes "distinct (map f xs)" "distinct (map g xs)"
    and "g r \<notin> set (map g (filter (\<lambda>x. f x \<noteq> i) xs))"
  shows "distinct (map g (map (\<lambda>x. if f x = i then r else x) xs))"
  using assms
proof (induction xs)
  case Nil
  show ?case by simp
next
  case (Cons x xs)
  show ?case
  proof (cases "f x = i")
    case True
    with Cons.prems(1) have none: "\<forall>y\<in>set xs. f y \<noteq> i" by (auto simp: image_iff)
    then have same: "map (\<lambda>x. if f x = i then r else x) xs = xs" "filter (\<lambda>x. f x \<noteq> i) xs = xs"
      by (simp_all add: map_idI)
    with Cons.prems True show ?thesis by simp
  next
    case False
    with Cons.prems have "g x \<noteq> g r" by auto
    moreover from Cons.prems have "g x \<notin> g ` set xs" by auto
    ultimately have "g x \<notin> set (map g (map (\<lambda>x. if f x = i then r else x) xs))"
      by (auto simp: image_iff split: if_splits)
    moreover have "distinct (map g (map (\<lambda>x. if f x = i then r else x) xs))"
      using Cons.IH Cons.prems False by simp
    ultimately show ?thesis using False by simp
  qed
qed

lemma distinct_count:
  "distinct (map f xs) \<Longrightarrow> length (filter (\<lambda>x. f x = v) xs) \<le> 1"
proof (induction xs)
  case Nil
  show ?case by simp
next
  case (Cons x xs)
  show ?case
  proof (cases "f x = v")
    case True
    with Cons.prems have "filter (\<lambda>x. f x = v) xs = []"
      by (auto simp: filter_empty_conv image_iff)
    with True show ?thesis by simp
  next
    case False
    with Cons show ?thesis by simp
  qed
qed

lemma QueueItems_dataItemId_checked:
  assumes "write_error QueueItems_table tabs others sent = None"
  shows "get (stored QueueItems_table sent) ''dataItemId'' \<noteq> Null"
    and "get (stored QueueItems_table sent) ''dataItemId'' \<notin> set (column_values ''dataItemId'' others)"
proof -
  define c where "c = (attr ''dataItemId'' INTEGER)\<lparr>allowNull := False, unique := True,
        references := Some (''DataItems'', ''id''), onDelete := Some CASCADE\<rparr>"
  have c: "c \<in> set QueueItems_table" by (simp add: c_def QueueItems_table_def)
  have props: "field c = ''dataItemId''" "unique c" "\<not> allowNull c"
    by (simp_all add: c_def attr_def)
  from write_error_None(1) [OF assms c] props
  show "get (stored QueueItems_table sent) ''dataItemId'' \<noteq> Null" by simp
  with write_error_None(3) [OF assms c] props
  show "get (stored QueueItems_table sent) ''dataItemId'' \<notin> set (column_values ''dataItemId'' others)"
    by simp
qed

lemma dataItemId_never_set_null:
  "\<forall>m'\<in>set (models hash). \<forall>c\<in>set (columns m'). onDelete c = Some SET_NULL \<longrightarrow> field c \<noteq> ''dataItemId''"
  using models_set_null by fastforce

lemma exec_dataItemId:
  assumes ids: "ids_consistent db"
    and inv: "distinct (column_values ''dataItemId'' (tables db ''QueueItems''))"
  shows "distinct (column_values ''dataItemId'' (tables (exec hash q db) ''QueueItems''))"
proof (cases q)
  case (Create n now salt vals)
  show ?thesis
  proof (cases "model_named hash n")
    case None
    with Create inv show ?thesis by simp
  next
    case (Some m)
    then have m: "m \<in> set (models hash)" by (rule model_named_in_models)
    show ?thesis
    proof (cases "Model_create m now salt db vals")
      case (Pair res db')
      show ?thesis
      proof (cases res)
        case (Inl e)
        with Pair have "db' = db" by (auto dest: Model_create_Inl)
        with Create Some Pair inv show ?thesis by simp
      next
        case (Inr r)
        with Pair have "Model_create m now salt db vals = (Inr r, db')" by simp
        then obtain inst sent :: row where
          ok: "write_error (columns m) (tables db) (tables db (tableName m)) sent = None"
          and r: "r = stored (columns m) sent"
          and db': "db' = db\<lparr>tables := (tables db)(tableName m := tables db (tableName m) @ [r]),
               sequences := (sequences db)(tableName m := sequences db (tableName m) + 1)\<rparr>"
          by (rule Model_create_Inr)
        have "distinct (column_values ''dataItemId'' (tables db' ''QueueItems''))"
        proof (cases "tableName m = ''QueueItems''")
          case True
          from ok have ok': "write_error QueueItems_table (tables db) (tables db ''QueueItems'') sent = None"
            using True models_QueueItems(1) [OF m True] by simp
          have r': "r = stored QueueItems_table sent"
            using r models_QueueItems(1) [OF m True] by simp
          have "get r ''dataItemId'' \<notin> set (column_values ''dataItemId'' (tables db ''QueueItems''))"
            using QueueItems_dataItemId_checked(2) [OF ok'] unfolding r' .
          with inv True show ?thesis by (simp add: db' column_values_def)
        next
          case False
          with inv show ?thesis by (simp add: db')
        qed
        with Create Some Pair show ?thesis by simp
      qed
    qed
  qed
next
  case (Update n now salt i changes)
  show ?thesis
  proof (cases "model_named hash n")
    case None
    with Update inv show ?thesis by simp
  next
    case (Some m)
    then have m: "m \<in> set (models hash)" by (rule model_named_in_models)
    show ?thesis
    proof (cases "Model_update m now salt db i changes")
      case (Pair res db')
      have "distinct (column_values ''dataItemId'' (tables db' ''QueueItems''))"
      proof (cases res)
        case (Inl e)
        with Pair have "db' = db" by (auto dest: Model_update_Inl)
        with inv show ?thesis by simp
      next
        case (Inr ro)
        show ?thesis
        proof (cases ro)
          case None
          with Pair Inr have "db' = db" by (auto dest: Model_update_None)
          with inv show ?thesis by simp
        next
          case (Some r)
          with Pair Inr have "Model_update m now salt db i changes = (Inr (Some r), db')" by simp
          then obtain old inst sent :: row where
            ok: "write_error (columns m) (tables db)
                  (filter (\<lambda>r'. get r' ''id'' \<noteq> IntV i) (tables db (tableName m))) sent = None"
            and r: "r = stored (columns m) sent"
            and db': "db' = db\<lparr>tables := (tables db)(tableName m :=
              map (\<lambda>r'. if get r' ''id'' = IntV i then r else r') (tables db (tableName m)))\<rparr>"
            by (rule Model_update_Some)
          show ?thesis
          proof (cases "tableName m = ''QueueItems''")
            case True
            from ok have ok': "write_error QueueItems_table (tables db)
                (filter (\<lambda>r'. get r' ''id'' \<noteq> IntV i) (tables db ''QueueItems'')) sent = None"
              using True models_QueueItems(1) [OF m True] by simp
            have r': "r = stored QueueItems_table sent"
              using r models_QueueItems(1) [OF m True] by simp
            have fresh: "get r ''dataItemId'' \<notin> set (map (\<lambda>r. get r ''dataItemId'')
                (filter (\<lambda>r'. get r' ''id'' \<noteq> IntV i) (tables db ''QueueItems'')))"
              using QueueItems_dataItemId_checked(2) [OF ok'] unfolding r' column_values_def .
            from ids have "distinct (map (\<lambda>r. get r ''id'') (tables db ''QueueItems''))"
              by (simp add: ids_consistent_def column_values_def)
            moreover from inv have "distinct (map (\<lambda>r. get r ''dataItemId'') (tables db ''QueueItems''))"
              by (simp add: column_values_def)
            ultimately have "distinct (map (\<lambda>r. get r ''dataItemId'')
                (map (\<lambda>r'. if get r' ''id'' = IntV i then r else r') (tables db ''QueueItems'')))"
              using fresh by (rule distinct_replace)
            with True show ?thesis by (simp add: db' column_values_def)
          next
            case False
            with inv show ?thesis by (simp add: db')
          qed
        qed
      qed
      with Update Some Pair show ?thesis by simp
    qed
  qed
next
  case (Destroy n i)
  show ?thesis
  proof (cases "model_named hash n")
    case None
    with Destroy inv show ?thesis by simp
  next
    case (Some m)
    from Model_destroy_column [OF dataItemId_never_set_null, of hash m db i "''QueueItems''"]
    obtain P where "column_values ''dataItemId'' (tables (Model_destroy (models hash) m db i) ''QueueItems'')
           = column_values ''dataItemId'' (filter P (tables db ''QueueItems''))" by blast
    with inv Destroy Some show ?thesis
      by (simp add: column_values_def distinct_map_filter)
  qed
qed

lemma run_dataItemId: "distinct (column_values ''dataItemId'' (tables (run hash reqs) ''QueueItems''))"
proof (induction reqs rule: rev_induct)
  case Nil
  show ?case by (simp add: run_Nil empty_database_def column_values_def)
next
  case (snoc q reqs)
  then show ?case by (simp add: run_snoc exec_dataItemId run_ids)
qed

lemma QueueItem_duplicate_refused:
  assumes "get vals ''dataItemId'' \<in> set (column_values ''dataItemId'' (tables db ''QueueItems''))"
  shows "\<exists>e. Model_create QueueItem now salt db vals = (Inl e, db)"
proof (cases "Model_create QueueItem now salt db vals")
  case (Pair res db')
  show ?thesis
  proof (cases res)
    case (Inl e)
    with Pair show ?thesis by (auto dest: Model_create_Inl)
  next
    case (Inr r)
    with Pair have "Model_create QueueItem now salt db vals = (Inr r, db')" by simp
    then obtain inst sent :: row where
      inst: "beforeValidate QueueItem salt (build (attributes QueueItem) vals) = Inr inst"
      and sent: "sent = (''id'', IntV (sequences db (tableName QueueItem) + 1))
              # persisted (attributes QueueItem) inst
              @ [(''createdAt'', DateV now), (''updatedAt'', DateV now)]"
      and ok: "write_error (columns QueueItem) (tables db) (tables db (tableName QueueItem)) sent = None"
      by (rule Model_create_Inr)
    from inst have inst': "inst = build QueueItem_attributes vals"
      by (simp add: model_simps)
    have "get (stored QueueItems_table sent) ''dataItemId'' = get sent ''dataItemId''"
      by (rule QueueItem_stored)
    also have "\<dots> = get vals ''dataItemId''"
      using QueueItem_sent(1) [OF sent [unfolded model_simps]]
      by (simp add: inst' get_def QueueItem_built)
    finally have "get (stored QueueItems_table sent) ''dataItemId'' = get vals ''dataItemId''" .
    with QueueItems_dataItemId_checked(2) [OF ok [unfolded model_simps]] assms
    show ?thesis by simp
  qed
qed


lemma test_history_QueueItems:
  "tables (run hash test_history) ''QueueItems'' =
     [[(''id'', IntV 1), (''dataItemId'', IntV 1), (''status'', StrV ''leased''),
       (''leasedById'', IntV 2), (''leasedAt'', DateV 5), (''completedById'', Null),
       (''completedAt'', Null), (''createdAt'', DateV 5), (''updatedAt'', DateV 5)]]"
  by code_simp

lemma unlisted_status_created:
  "fst (Model_create QueueItem 4 [] (run example_hash ingest_history)
        [(''dataItemId'', IntV 1), (''status'', StrV ''done'')])
     = Inr [(''id'', IntV 1), (''dataItemId'', IntV 1), (''status'', StrV ''done''),
            (''leasedById'', Null), (''leasedAt'', Null), (''completedById'', Null),
            (''completedAt'', Null), (''createdAt'', DateV 4), (''updatedAt'', DateV 4)]"
  by code_simp

lemma unlisted_status_updated:
  "fst (Model_update QueueItem 6 [] (run example_hash test_history) 1
        [(''status'', StrV ''done'')])
     = Inr (Some [(''id'', IntV 1), (''dataItemId'', IntV 1), (''status'', StrV ''done''),
            (''leasedById'', IntV 2), (''leasedAt'', DateV 5), (''completedById'', Null),
            (''completedAt'', Null), (''createdAt'', DateV 5), (''updatedAt'', DateV 6)])"
  by code_simp

lemma unlisted_status_reached:
  "column_values ''status'' (tables (run example_hash
        (test_history @ [Update ''QueueItem'' 6 [] 1 [(''status'', StrV ''done'')]]))
        ''QueueItems'') = [StrV ''done'']"
  by code_simp

lemma QueueItem_create_status:
  assumes "Model_create QueueItem now salt db vals = (Inr r, db')"
  shows "get r ''status'' = (case map_of vals ''status'' of Some v \<Rightarrow> v | None \<Rightarrow> StrV ''pending'')"
proof -
  from assms obtain inst sent :: row where
    inst: "beforeValidate QueueItem salt (build (attributes QueueItem) vals) = Inr inst"
    and sent: "sent = (''id'', IntV (sequences db (tableName QueueItem) + 1))
              # persisted (attributes QueueItem) inst
              @ [(''createdAt'', DateV now), (''updatedAt'', DateV now)]"
    and ok: "write_error (columns QueueItem) (tables db) (tables db (tableName QueueItem)) sent = None"
    and r: "r = stored (columns QueueItem) sent"
    by (rule Model_create_Inr)
  from inst have inst': "inst = build QueueItem_attributes vals"
    by (simp add: model_simps)
  have "map_of sent ''status'' = map_of inst ''status''"
    by (rule QueueItem_sent(2) [OF sent [unfolded model_simps]])
  then show ?thesis
    by (simp add: r model_simps QueueItem_stored inst' QueueItem_built split: option.splits)
qed

lemma QueueItem_create_for_item:
  "Model_create QueueItem now salt db [(''dataItemId'', IntV d)] =
     (if IntV (sequences db ''QueueItems'' + 1) \<in> set (column_values ''id'' (tables db ''QueueItems''))
      then (Inl (UniqueConstraintError ''id''), db)
      else if IntV d \<in> set (column_values ''dataItemId'' (tables db ''QueueItems''))
      then (Inl (UniqueConstraintError ''dataItemId''), db)
      else if IntV d \<notin> set (column_values ''id'' (tables db ''DataItems''))
      then (Inl (ForeignKeyConstraintError ''dataItemId''), db)
      else (Inr [(''id'', IntV (sequences db ''QueueItems'' + 1)), (''dataItemId'', IntV d),
                 (''status'', StrV ''pending''), (''leasedById'', Null), (''leasedAt'', Null),
                 (''completedById'', Null), (''completedAt'', Null), (''createdAt'', DateV now),
                 (''updatedAt'', DateV now)],
            db\<lparr>tables := (tables db)(''QueueItems'' := tables db ''QueueItems'' @
                 [[(''id'', IntV (sequences db ''QueueItems'' + 1)), (''dataItemId'', IntV d),
                   (''status'', StrV ''pending''), (''leasedById'', Null), (''leasedAt'', Null),
                   (''completedById'', Null), (''completedAt'', Null), (''createdAt'', DateV now),
                   (''updatedAt'', DateV now)]]),
               sequences := (sequences db)(''QueueItems'' := sequences db ''QueueItems'' + 1)\<rparr>))"
  by (simp add: Model_create_def model_simps build_def validate_def persisted_def is_virtual_def
        write_error_def stored_def get_def Let_def QueueItem_attributes_def QueueItems_table_def
        attr_def)

lemma QueueItem_create_fields:
  assumes "Model_create QueueItem now salt db vals = (Inr q, db')"
  shows "get q ''dataItemId'' = get vals ''dataItemId''"
    and "get q ''leasedById'' = get vals ''leasedById''"
    and "get q ''leasedAt'' = get vals ''leasedAt''"
    and "get q ''completedById'' = get vals ''completedById''"
    and "get q ''completedAt'' = get vals ''completedAt''"
    and "tables db' ''QueueItems'' = tables db ''QueueItems'' @ [q]"
proof -
  from assms obtain inst sent :: row where
    inst: "beforeValidate QueueItem salt (build (attributes QueueItem) vals) = Inr inst"
    and sent: "sent = (''id'', IntV (sequences db (tableName QueueItem) + 1))
              # persisted (attributes QueueItem) inst
              @ [(''createdAt'', DateV now), (''updatedAt'', DateV now)]"
    and q: "q = stored (columns QueueItem) sent"
    and db': "db' = db\<lparr>tables := (tables db)(tableName QueueItem := tables db (tableName QueueItem) @ [q]),
               sequences := (sequences db)(tableName QueueItem := sequences db (tableName QueueItem) + 1)\<rparr>"
    by (rule Model_create_Inr)
  from inst have inst': "inst = build QueueItem_attributes vals"
    by (simp add: model_simps)
  note s = QueueItem_sent [OF sent [unfolded model_simps]]
  show "get q ''dataItemId'' = get vals ''dataItemId''"
    by (simp add: q model_simps QueueItem_stored) (simp add: get_def s inst' QueueItem_built)
  show "get q ''leasedById'' = get vals ''leasedById''"
    by (simp add: q model_simps QueueItem_stored) (simp add: get_def s inst' QueueItem_built)
  show "get q ''leasedAt'' = get vals ''leasedAt''"
    by (simp add: q model_simps QueueItem_stored) (simp add: get_def s inst' QueueItem_built)
  show "get q ''completedById'' = get vals ''completedById''"
    by (simp add: q model_simps QueueItem_stored) (simp add: get_def s inst' QueueItem_built)
  show "get q ''completedAt'' = get vals ''completedAt''"
    by (simp add: q model_simps QueueItem_stored) (simp add: get_def s inst' QueueItem_built)
  show "tables db' ''QueueItems'' = tables db ''QueueItems'' @ [q]"
    by (simp add: db' model_simps)
qed

lemma fresh_id:
  "ids_consistent db \<Longrightarrow> IntV (sequences db T + 1) \<notin> set (column_values ''id'' (tables db T))"
  by (fastforce simp: ids_consistent_def)

lemma model_named_QueueItem: "model_named hash ''QueueItem'' = Some QueueItem"
  by (simp add: model_named_def models_def User_def DataItem_def DataItemVersion_def QueueItem_def)

lemma ingest_DataItems:
  "tables (run hash ingest_history) ''DataItems'' =
     [[(''id'', IntV 1), (''originalLine'', StrV ''test line''), (''identifier'', Null),
       (''originalLabelText'', Null), (''originalMacroText'', Null), (''isComplete'', BoolV False),
       (''accessionId'', Null), (''imageIdentifier'', Null), (''createdAt'', DateV 3),
       (''updatedAt'', DateV 3)]]"
  "tables (run hash ingest_history) ''QueueItems'' = []"
  "sequences (run hash ingest_history) ''QueueItems'' = 0"
  by code_simp+

lemma model_named_User: "model_named hash ''User'' = Some (User hash)"
  by (simp add: model_named_def models_def User_def)

lemma find_id_Some:
  "IntV u \<in> set (column_values ''id'' rs) \<Longrightarrow>
     \<exists>deleted. find (\<lambda>r. get r ''id'' = IntV u) rs = Some deleted \<and> get deleted ''id'' = IntV u"
  by (cases "find (\<lambda>r. get r ''id'' = IntV u) rs")
     (auto simp: find_None_iff column_values_def find_Some_iff)

lemma find_QueueItem_model:
  "find (\<lambda>m'. tableName m' = ''QueueItems'') (models hash) = Some QueueItem"
  by (simp add: models_def model_simps)

lemma on_delete_Users_QueueItems:
  "on_delete QueueItems_table ''Users'' deleted rs =
     map (\<lambda>r. if get r ''completedById'' = get deleted ''id'' then put ''completedById'' Null r else r)
       (map (\<lambda>r. if get r ''leasedById'' = get deleted ''id'' then put ''leasedById'' Null r else r) rs)"
  by (simp add: on_delete_def QueueItems_table_def attr_def)

lemma User_destroy_QueueItems:
  assumes "IntV u \<in> set (column_values ''id'' (tables db ''Users''))"
  shows "tables (exec hash (Destroy ''User'' u) db) ''QueueItems'' =
     map (\<lambda>r. if get r ''completedById'' = IntV u then put ''completedById'' Null r else r)
       (map (\<lambda>r. if get r ''leasedById'' = IntV u then put ''leasedById'' Null r else r)
          (tables db ''QueueItems''))"
proof -
  from find_id_Some [OF assms] obtain deleted where
    "find (\<lambda>r. get r ''id'' = IntV u) (tables db ''Users'') = Some deleted"
    "get deleted ''id'' = IntV u" by blast
  then show ?thesis
    by (simp add: model_named_User Model_destroy_def model_simps find_QueueItem_model
          on_delete_Users_QueueItems)
qed

lemma leased_without_user:
  "tables (run hash (test_history @ [Destroy ''User'' 2])) ''QueueItems'' =
     [[(''id'', IntV 1), (''dataItemId'', IntV 1), (''status'', StrV ''leased''),
       (''leasedById'', Null), (''leasedAt'', DateV 5), (''completedById'', Null),
       (''completedAt'', Null), (''createdAt'', DateV 5), (''updatedAt'', DateV 5)]]"
  by code_simp

lemma test_history_Users:
  "column_values ''id'' (tables (run hash test_history) ''Users'') = [IntV 1, IntV 2]"
  by code_simp

section \<open>Versions of data items\<close>

lemma audit_history_versions:
  "tables (run hash audit_history) ''DataItemVersions'' =
     [[(''id'', IntV 1), (''dataItemId'', IntV 1), (''changedByUserId'', IntV 1),
       (''createdAt'', DateV 3), (''updatedAt'', DateV 3)],
      [(''id'', IntV 2), (''dataItemId'', IntV 1), (''changedByUserId'', IntV 1),
       (''createdAt'', DateV 4), (''updatedAt'', DateV 4)]]"
  by code_simp

lemma audit_history_user_destroyed:
  "tables (run hash (audit_history @ [Destroy ''User'' 1])) ''DataItemVersions'' = []"
  by code_simp

lemma synced_duplicate_versions:
  "tables (numbered_twice hash) ''DataItemVersions'' =
   [[(''id'', IntV 1), (''dataItemId'', IntV 1), (''version'', IntV 1), (''accessionId'', Null),
     (''stain'', Null), (''blockNumber'', Null), (''isComplete'', Null),
     (''changedByUserId'', IntV 1), (''createdAt'', DateV 3), (''updatedAt'', DateV 3)],
    [(''id'', IntV 2), (''dataItemId'', IntV 1), (''version'', IntV 1), (''accessionId'', Null),
     (''stain'', Null), (''blockNumber'', Null), (''isComplete'', Null),
     (''changedByUserId'', IntV 1), (''createdAt'', DateV 4), (''updatedAt'', DateV 4)]]"
  by code_simp

lemma find_id_None:
  "IntV u \<notin> set (column_values ''id'' rs) \<Longrightarrow> find (\<lambda>r. get r ''id'' = IntV u) rs = None"
  by (auto simp: find_None_iff column_values_def image_iff)

lemma modelName_simps:
  "modelName (User hash) = ''User''" "modelName DataItem = ''DataItem''"
  "modelName DataItemVersion = ''DataItemVersion''" "modelName QueueItem = ''QueueItem''"
  by (simp_all add: User_def DataItem_def DataItemVersion_def QueueItem_def)

lemma model_named_simps:
  "model_named hash ''DataItem'' = Some DataItem"
  "model_named hash ''DataItemVersion'' = Some DataItemVersion"
  by (simp_all add: model_named_def models_def modelName_simps)

lemma model_named_modelName: "model_named hash n = Some m \<Longrightarrow> modelName m = n"
  by (auto simp: model_named_def find_Some_iff)

lemma models_DataItemVersions:
  assumes "m \<in> set (models hash)"
  shows "(tableName m = ''DataItemVersions'') = (modelName m = ''DataItemVersion'')"
  using assms by (cases rule: models_cases) (simp_all add: model_simps modelName_simps)

lemma find_DataItemVersion_model:
  "find (\<lambda>m'. tableName m' = ''DataItemVersions'') (models hash) = Some DataItemVersion"
  by (simp add: models_def model_simps)

lemma on_delete_DataItemVersions:
  "on_delete DataItemVersions_table ''Users'' deleted rs =
     filter (\<lambda>r. get r ''changedByUserId'' \<noteq> get deleted ''id'') rs"
  "on_delete DataItemVersions_table ''DataItems'' deleted rs =
     filter (\<lambda>r. get r ''dataItemId'' \<noteq> get deleted ''id'') rs"
  "on_delete DataItemVersions_table ''QueueItems'' deleted rs = rs"
  by (simp_all add: on_delete_def DataItemVersions_table_def attr_def)

lemma exec_Create_table:
  "\<exists>new. tables (exec hash (Create n now salt vals) db) T = tables db T @ new"
proof (cases "model_named hash n")
  case None
  then show ?thesis by simp
next
  case (Some m)
  show ?thesis
  proof (cases "Model_create m now salt db vals")
    case (Pair res db')
    show ?thesis
    proof (cases res)
      case (Inl e)
      with Pair have "db' = db" by (auto dest: Model_create_Inl)
      with Some Pair show ?thesis by simp
    next
      case (Inr r)
      with Pair have "Model_create m now salt db vals = (Inr r, db')" by simp
      then obtain inst sent :: row where
        "validate (attributes m) inst = None"
        and db': "db' = db\<lparr>tables := (tables db)(tableName m := tables db (tableName m) @ [r]),
               sequences := (sequences db)(tableName m := sequences db (tableName m) + 1)\<rparr>"
        by (rule Model_create_Inr)
      have "tables db' T = tables db T @ (if T = tableName m then [r] else [])"
        by (simp add: db')
      with Some Pair show ?thesis by auto
    qed
  qed
qed

lemma exec_Update_other_table:
  assumes "n \<noteq> ''DataItemVersion''"
  shows "tables (exec hash (Update n now salt i changes) db) ''DataItemVersions''
           = tables db ''DataItemVersions''"
proof (cases "model_named hash n")
  case None
  then show ?thesis by simp
next
  case (Some m)
  from Some have "m \<in> set (models hash)" by (rule model_named_in_models)
  with assms model_named_modelName [OF Some] have T: "tableName m \<noteq> ''DataItemVersions''"
    by (simp add: models_DataItemVersions)
  show ?thesis
  proof (cases "Model_update m now salt db i changes")
    case (Pair res db')
    have "tables db' ''DataItemVersions'' = tables db ''DataItemVersions''"
    proof (cases res)
      case (Inl e)
      with Pair show ?thesis by (auto dest: Model_update_Inl)
    next
      case (Inr ro)
      show ?thesis
      proof (cases ro)
        case None
        with Pair Inr show ?thesis by (auto dest: Model_update_None)
      next
        case (Some r)
        with Pair Inr have "Model_update m now salt db i changes = (Inr (Some r), db')" by simp
        then obtain old inst sent :: row where
          "validate (changed_attributes (attributes m) changes) inst = None"
          and db': "db' = db\<lparr>tables := (tables db)(tableName m :=
              map (\<lambda>r'. if get r' ''id'' = IntV i then r else r') (tables db (tableName m)))\<rparr>"
          by (rule Model_update_Some)
        with T show ?thesis by simp
      qed
    qed
    with \<open>model_named hash n = Some m\<close> Pair show ?thesis by simp
  qed
qed

lemma exec_Destroy_User_versions:
  "tables (exec hash (Destroy ''User'' u) db) ''DataItemVersions'' =
     (if IntV u \<in> set (column_values ''id'' (tables db ''Users''))
      then filter (\<lambda>v. get v ''changedByUserId'' \<noteq> IntV u) (tables db ''DataItemVersions'')
      else tables db ''DataItemVersions'')"
proof (cases "IntV u \<in> set (column_values ''id'' (tables db ''Users''))")
  case True
  from find_id_Some [OF True] obtain deleted where
    "find (\<lambda>r. get r ''id'' = IntV u) (tables db ''Users'') = Some deleted"
    "get deleted ''id'' = IntV u" by blast
  with True show ?thesis
    by (simp add: model_named_User Model_destroy_def model_simps find_DataItemVersion_model
          on_delete_DataItemVersions)
next
  case False
  with find_id_None [OF False] show ?thesis
    by (simp add: model_named_User Model_destroy_def model_simps)
qed

lemma exec_Destroy_DataItem_versions:
  "tables (exec hash (Destroy ''DataItem'' d) db) ''DataItemVersions'' =
     (if IntV d \<in> set (column_values ''id'' (tables db ''DataItems''))
      then filter (\<lambda>v. get v ''dataItemId'' \<noteq> IntV d) (tables db ''DataItemVersions'')
      else tables db ''DataItemVersions'')"
proof (cases "IntV d \<in> set (column_values ''id'' (tables db ''DataItems''))")
  case True
  from find_id_Some [OF True] obtain deleted where
    "find (\<lambda>r. get r ''id'' = IntV d) (tables db ''DataItems'') = Some deleted"
    "get deleted ''id'' = IntV d" by blast
  with True show ?thesis
    by (simp add: model_named_simps Model_destroy_def model_simps find_DataItemVersion_model
          on_delete_DataItemVersions)
next
  case False
  with find_id_None [OF False] show ?thesis
    by (simp add: model_named_simps Model_destroy_def model_simps)
qed

lemma exec_Destroy_other_versions:
  assumes "n \<noteq> ''DataItemVersion''" "n \<noteq> ''User''" "n \<noteq> ''DataItem''"
  shows "tables (exec hash (Destroy n i) db) ''DataItemVersions'' = tables db ''DataItemVersions''"
proof (cases "model_named hash n")
  case None
  then show ?thesis by simp
next
  case (Some m)
  from Some have "m \<in> set (models hash)" by (rule model_named_in_models)
  with assms model_named_modelName [OF Some] have m: "m = QueueItem"
    by (auto simp: set_models modelName_simps)
  show ?thesis
    using Some unfolding m
    by (simp add: Model_destroy_def model_simps find_DataItemVersion_model
          on_delete_DataItemVersions split: option.splits)
qed

lemma audit_history_parents:
  "column_values ''id'' (tables (run hash audit_history) ''Users'') = [IntV 1]"
  "column_values ''id'' (tables (run hash audit_history) ''DataItems'') = [IntV 1]"
  by code_simp+

lemma synced_simps:
  "tableName DataItemVersion_synced = ''DataItemVersions''"
  "attributes DataItemVersion_synced = DataItemVersion_attributes"
  "columns DataItemVersion_synced = sync DataItemVersion_attributes"
  "beforeValidate DataItemVersion_synced = (\<lambda>salt inst. Inr inst)"
  by (simp_all add: DataItemVersion_synced_def DataItemVersion_def)

lemma synced_version_column:
  "find (\<lambda>c. field c = ''version'') (sync DataItemVersion_attributes) = Some (attr ''version'' INTEGER)"
  "find (\<lambda>a. field a = ''version'') DataItemVersion_attributes = Some (attr ''version'' INTEGER)"
  by (simp_all add: sync_def DataItemVersion_attributes_def attr_def)

lemma synced_create_version:
  assumes "Model_create DataItemVersion_synced now salt db vals = (Inr v, db')"
  shows "get v ''version'' = get vals ''version''"
    and "tables db' ''DataItemVersions'' = tables db ''DataItemVersions'' @ [v]"
proof -
  from assms obtain inst sent :: row where
    inst: "beforeValidate DataItemVersion_synced salt (build (attributes DataItemVersion_synced) vals) = Inr inst"
    and sent: "sent = (''id'', IntV (sequences db (tableName DataItemVersion_synced) + 1))
              # persisted (attributes DataItemVersion_synced) inst
              @ [(''createdAt'', DateV now), (''updatedAt'', DateV now)]"
    and v: "v = stored (columns DataItemVersion_synced) sent"
    and db': "db' = db\<lparr>tables := (tables db)(tableName DataItemVersion_synced :=
                 tables db (tableName DataItemVersion_synced) @ [v]),
               sequences := (sequences db)(tableName DataItemVersion_synced :=
                 sequences db (tableName DataItemVersion_synced) + 1)\<rparr>"
    by (rule Model_create_Inr)
  from inst have inst': "inst = build DataItemVersion_attributes vals"
    by (simp add: synced_simps)
  have "map_of inst ''version'' = map_of vals ''version''"
    by (simp add: inst' map_of_build attribute_fields synced_version_column attr_def
          split: option.splits)
  then have "map_of sent ''version'' = map_of vals ''version''"
    by (simp add: sent synced_simps map_of_persisted is_virtual_iff virtual_attributes
          map_add_def split: option.splits)
  then show "get v ''version'' = get vals ''version''"
    by (simp add: v synced_simps get_def map_of_stored synced_version_column attr_def
          split: option.splits)
  show "tables db' ''DataItemVersions'' = tables db ''DataItemVersions'' @ [v]"
    by (simp add: db' synced_simps)
qed

lemma synced_first_version:
  "fst (Model_create DataItemVersion_synced 3 [] (run hash (take 2 audit_history))
          [(''dataItemId'', IntV 1), (''changedByUserId'', IntV 1), (''version'', IntV 1)])
     = Inr [(''id'', IntV 1), (''dataItemId'', IntV 1), (''version'', IntV 1), (''accessionId'', Null),
            (''stain'', Null), (''blockNumber'', Null), (''isComplete'', Null),
            (''changedByUserId'', IntV 1), (''createdAt'', DateV 3), (''updatedAt'', DateV 3)]"
  by code_simp

section \<open>The lease queue of the spec: completion\<close>

lemma Complete_not_leased:
  "leases st w = Some l \<Longrightarrow> status l \<noteq> leased
     \<Longrightarrow> Complete now w user corrected st = (Inl NotLeased, st)"
  by (simp add: Complete_def)

lemma Complete_Inr:
  assumes "Complete now w user corrected st = (Inr v, st')"
  shows "\<exists>l. leases st w = Some l \<and> status l = leased" and "versions st' = versions st @ [v]"
  using assms by (auto simp: Complete_def Let_def split: option.splits if_splits)

lemma completed_is_terminal:
  assumes "leases st w = Some l" "status l = completed"
  shows "leases (apply_op op st) w = Some l"
proof (cases op)
  case (OpCreateForItem w')
  with assms show ?thesis
    by (auto simp: CreateForItem_def Let_def split: option.splits)
next
  case (OpAcquireNext now user)
  show ?thesis
  proof (cases "find (is_pending st) (sort (workItems st))")
    case None
    with OpAcquireNext assms show ?thesis by (simp add: AcquireNext_def)
  next
    case (Some w')
    then have "is_pending st w'" by (auto simp: find_Some_iff)
    with assms have "w' \<noteq> w" by (auto simp: is_pending_def)
    with OpAcquireNext Some assms show ?thesis
      by (auto simp: AcquireNext_def Let_def split: option.splits)
  qed
next
  case (OpRelease w' user)
  with assms show ?thesis
    by (auto simp: Release_def split: option.splits)
next
  case (OpComplete now w' user corrected)
  with assms show ?thesis
    by (auto simp: Complete_def Let_def split: option.splits)
qed

lemma queue_example:
  "leases queue_created 1 = Some \<lparr>status = pending, leasedBy = None, leasedAt = None,
       completedBy = None, completedAt = None\<rparr>"
  "leases queue_leased 1 = Some \<lparr>status = leased, leasedBy = Some 7, leasedAt = Some 5,
       completedBy = None, completedAt = None\<rparr>"
  "leases queue_completed 1 = Some \<lparr>status = completed, leasedBy = Some 7, leasedAt = Some 5,
       completedBy = Some 7, completedAt = Some 6\<rparr>"
  "versions queue_leased = []"
  "Complete 6 1 reviewer [(''accessionId'', StrV ''ABC-123'')] queue_leased =
     (Inr \<lparr>workItem = 1, sequence = 1, correctedFields = [(''accessionId'', StrV ''ABC-123'')],
           actingUser = 7\<rparr>, queue_completed)"
  by (simp_all add: queue_completed_def queue_leased_def queue_created_def empty_queue_def
        reviewer_def CreateForItem_def AcquireNext_def Complete_def is_pending_def
        previous_max_def Let_def)

section \<open>Users and passwords\<close>

lemma User_columns:
  "find (\<lambda>c. field c = ''passwordHash'') Users_table = Some ((attr ''passwordHash'' STRING)\<lparr>allowNull := False\<rparr>)"
  "find (\<lambda>c. field c = ''password'') Users_table = None"
  "find (\<lambda>a. field a = ''password'') User_attributes
     = Some ((attr ''password'' VIRTUAL)\<lparr>allowNull := False, notEmpty := True\<rparr>)"
  by (simp_all add: Users_table_def User_attributes_def attr_def)

lemma User_created:
  assumes c: "Model_create (User hash) now salt db vals = (Inr user, db')"
    and p: "get vals ''password'' = StrV p" "p \<noteq> []"
  shows "get user ''passwordHash'' = StrV (hash p salt)"
    and "map_of user ''password'' = None"
    and "tables db' ''Users'' = tables db ''Users'' @ [user]"
proof -
  from c obtain inst sent :: row where
    inst: "beforeValidate (User hash) salt (build (attributes (User hash)) vals) = Inr inst"
    and sent: "sent = (''id'', IntV (sequences db (tableName (User hash)) + 1))
              # persisted (attributes (User hash)) inst
              @ [(''createdAt'', DateV now), (''updatedAt'', DateV now)]"
    and user: "user = stored (columns (User hash)) sent"
    and db': "db' = db\<lparr>tables := (tables db)(tableName (User hash) := tables db (tableName (User hash)) @ [user]),
               sequences := (sequences db)(tableName (User hash) := sequences db (tableName (User hash)) + 1)\<rparr>"
    by (rule Model_create_Inr)
  from p have "map_of vals ''password'' = Some (StrV p)"
    by (auto simp: get_def split: option.splits)
  then have "map_of (build User_attributes vals) ''password'' = Some (StrV p)"
    by (simp add: map_of_build attribute_fields User_columns)
  then have "get (build User_attributes vals) ''password'' = StrV p"
    by (simp add: get_def)
  with inst p have inst': "inst = put ''passwordHash'' (StrV (hash p salt)) (build User_attributes vals)"
    by (simp add: model_simps User_beforeValidate_def)
  have "map_of sent ''passwordHash'' = Some (StrV (hash p salt))"
    by (simp add: sent model_simps map_of_persisted is_virtual_iff virtual_attributes inst'
          map_of_put map_add_def)
  then show "get user ''passwordHash'' = StrV (hash p salt)"
    by (simp add: user model_simps get_def map_of_stored User_columns)
  show "map_of user ''password'' = None"
    by (simp add: user model_simps map_of_stored User_columns)
  show "tables db' ''Users'' = tables db ''Users'' @ [user]"
    by (simp add: db' model_simps)
qed

lemma first_user:
  "fst (Model_create (User example_hash) 1 ''salt1'' empty_database
         [(''username'', StrV ''testuser''), (''password'', StrV ''password123'')])
     = Inr [(''id'', IntV 1), (''username'', StrV ''testuser''),
            (''passwordHash'', StrV ''salt1password123''), (''correctionCount'', IntV 0),
            (''isAdmin'', BoolV False), (''createdAt'', DateV 1), (''updatedAt'', DateV 1)]"
  by code_simp

section \<open>The properties of the specification\<close>

text \<open>
  C1. A DataItem has at most one QueueItem at any time: in every state a history of
  requests leads to, at most one row of QueueItems holds a given \<open>dataItemId\<close>, and
  creating a QueueItem whose \<open>dataItemId\<close> is already held by a row fails and leaves
  the database as it was.
\<close>

theorem QueueItem_unique_per_DataItem:
  "length (filter (\<lambda>q. get q ''dataItemId'' = d) (tables (run hash reqs) ''QueueItems'')) \<le> 1
   \<and> (get vals ''dataItemId'' \<in> set (column_values ''dataItemId'' (tables (run hash reqs) ''QueueItems''))
        \<longrightarrow> (\<exists>e. Model_create QueueItem now salt (run hash reqs) vals = (Inl e, run hash reqs)))"
proof (intro conjI impI)
  have "distinct (map (\<lambda>q. get q ''dataItemId'') (tables (run hash reqs) ''QueueItems''))"
    using run_dataItemId [of hash reqs] by (simp add: column_values_def)
  then show "length (filter (\<lambda>q. get q ''dataItemId'' = d) (tables (run hash reqs) ''QueueItems'')) \<le> 1"
    by (rule distinct_count)
next
  assume "get vals ''dataItemId'' \<in> set (column_values ''dataItemId'' (tables (run hash reqs) ''QueueItems''))"
  then show "\<exists>e. Model_create QueueItem now salt (run hash reqs) vals = (Inl e, run hash reqs)"
    by (rule QueueItem_duplicate_refused)
qed


theorem QueueItem_unique_per_DataItem_witness:
  "length (filter (\<lambda>q. get q ''dataItemId'' = IntV 1)
       (tables (run example_hash test_history) ''QueueItems'')) \<le> 1
   \<and> (\<exists>e. Model_create QueueItem 6 [] (run example_hash test_history) [(''dataItemId'', IntV 1)]
          = (Inl e, run example_hash test_history))"
proof -
  have "get [(''dataItemId'', IntV 1)] ''dataItemId''
      \<in> set (column_values ''dataItemId'' (tables (run example_hash test_history) ''QueueItems''))"
    by (simp add: test_history_QueueItems column_values_def get_def)
  with QueueItem_unique_per_DataItem [of "IntV 1" example_hash test_history
      "[(''dataItemId'', IntV 1)]" 6 "[]"]
  show ?thesis by simp
qed

text \<open>
  C2, counterexample. No uniqueness constraint covers (\<open>dataItemId\<close>, \<open>version\<close>):
  on the table built from the model, two versions of data item 1 are created with
  \<open>version: 1\<close>, and both are stored; on the table of the migration, which has no
  \<open>version\<close> column, the two versions of the audit history carry no number at all.
\<close>

theorem version_numbers_unconstrained:
  "\<not> distinct (zip (column_values ''dataItemId'' (tables (numbered_twice example_hash) ''DataItemVersions''))
                   (column_values ''version'' (tables (numbered_twice example_hash) ''DataItemVersions'')))
   \<and> column_values ''version'' (tables (run example_hash audit_history) ''DataItemVersions'')
       = [Null, Null]"
  by (simp add: synced_duplicate_versions audit_history_versions column_values_def get_def)

text \<open>
  C2, as amended. The primary key is the only unique column of DataItemVersions, in the
  migration and on the table built from the model, and the ids of its rows are distinct in
  every state a history of requests leads to; the \<open>version\<close> of a created
  DataItemVersion is the value the caller gave (null when none was given), stored as it
  is on the table that has the column.
\<close>

theorem DataItemVersion_id_only_unique:
  "distinct (column_values ''id'' (tables (run hash reqs) ''DataItemVersions''))
   \<and> map field (filter (\<lambda>c. unique c \<or> primaryKey c) DataItemVersions_table) = [''id'']
   \<and> map field (filter (\<lambda>c. unique c \<or> primaryKey c) (sync DataItemVersion_attributes)) = [''id'']
   \<and> (Model_create DataItemVersion_synced now salt db vals = (Inr v, db')
        \<longrightarrow> get v ''version'' = get vals ''version''
          \<and> tables db' ''DataItemVersions'' = tables db ''DataItemVersions'' @ [v])"
proof (intro conjI impI)
  show "distinct (column_values ''id'' (tables (run hash reqs) ''DataItemVersions''))"
    using run_ids [of hash reqs] by (simp add: ids_consistent_def)
  show "map field (filter (\<lambda>c. unique c \<or> primaryKey c) DataItemVersions_table) = [''id'']"
    by (simp add: DataItemVersions_table_def attr_def)
  show "map field (filter (\<lambda>c. unique c \<or> primaryKey c) (sync DataItemVersion_attributes)) = [''id'']"
    by (simp add: sync_def DataItemVersion_attributes_def attr_def)
next
  assume c: "Model_create DataItemVersion_synced now salt db vals = (Inr v, db')"
  show "get v ''version'' = get vals ''version''" by (rule synced_create_version [OF c])
  show "tables db' ''DataItemVersions'' = tables db ''DataItemVersions'' @ [v]"
    by (rule synced_create_version [OF c])
qed

theorem DataItemVersion_id_only_unique_witness:
  "distinct (column_values ''id'' (tables (run example_hash audit_history) ''DataItemVersions''))
   \<and> get [(''id'', IntV 1), (''dataItemId'', IntV 1), (''version'', IntV 1), (''accessionId'', Null),
          (''stain'', Null), (''blockNumber'', Null), (''isComplete'', Null),
          (''changedByUserId'', IntV 1), (''createdAt'', DateV 3), (''updatedAt'', DateV 3)] ''version''
       = IntV 1"
proof -
  let ?db = "run example_hash (take 2 audit_history)"
  let ?vals = "[(''dataItemId'', IntV 1), (''changedByUserId'', IntV 1), (''version'', IntV 1)]"
  let ?v = "[(''id'', IntV 1), (''dataItemId'', IntV 1), (''version'', IntV 1), (''accessionId'', Null),
          (''stain'', Null), (''blockNumber'', Null), (''isComplete'', Null),
          (''changedByUserId'', IntV 1), (''createdAt'', DateV 3), (''updatedAt'', DateV 3)]"
  have "Model_create DataItemVersion_synced 3 [] ?db ?vals
      = (Inr ?v, snd (Model_create DataItemVersion_synced 3 [] ?db ?vals))"
    using synced_first_version [of example_hash]
    by (metis prod.collapse)
  with DataItemVersion_id_only_unique [of example_hash audit_history 3 "[]" ?db ?vals ?v
      "snd (Model_create DataItemVersion_synced 3 [] ?db ?vals)"]
  have "get ?v ''version'' = get ?vals ''version''"
    and "distinct (column_values ''id'' (tables (run example_hash audit_history) ''DataItemVersions''))"
    by blast+
  then show ?thesis by (simp add: get_def)
qed

text \<open>
  C3, counterexample. A DataItemVersion is not permanent: in the audit history a version
  made by user 1 is stored; after user 1 is deleted the table DataItemVersions is empty
  (\<open>onDelete: 'CASCADE'\<close> on \<open>changedByUserId\<close>, lines 21 to 29 of the migration).
\<close>

theorem version_deleted_with_user:
  "[(''id'', IntV 1), (''dataItemId'', IntV 1), (''changedByUserId'', IntV 1),
    (''createdAt'', DateV 3), (''updatedAt'', DateV 3)]
     \<in> set (tables (run example_hash audit_history) ''DataItemVersions'')
   \<and> tables (run example_hash (audit_history @ [Destroy ''User'' 1])) ''DataItemVersions'' = []"
  by (simp add: audit_history_versions audit_history_user_destroyed)

text \<open>
  C3, as amended. Creating an instance of any model keeps every row of DataItemVersions,
  in place; updating an instance of another model leaves the table as it is; deleting a
  user that exists removes exactly the versions whose \<open>changedByUserId\<close> is the user,
  deleting a data item that exists exactly those whose \<open>dataItemId\<close> is the item, and
  deleting anything else that is not a DataItemVersion removes none.
\<close>

theorem DataItemVersions_removed_only_by_cascade:
  "(\<exists>new. tables (exec hash (Create n now salt vals) db) ''DataItemVersions''
            = tables db ''DataItemVersions'' @ new)
   \<and> (n \<noteq> ''DataItemVersion'' \<longrightarrow>
        tables (exec hash (Update n now salt i vals) db) ''DataItemVersions''
          = tables db ''DataItemVersions'')
   \<and> tables (exec hash (Destroy ''User'' i) db) ''DataItemVersions'' =
       (if IntV i \<in> set (column_values ''id'' (tables db ''Users''))
        then filter (\<lambda>v. get v ''changedByUserId'' \<noteq> IntV i) (tables db ''DataItemVersions'')
        else tables db ''DataItemVersions'')
   \<and> tables (exec hash (Destroy ''DataItem'' i) db) ''DataItemVersions'' =
       (if IntV i \<in> set (column_values ''id'' (tables db ''DataItems''))
        then filter (\<lambda>v. get v ''dataItemId'' \<noteq> IntV i) (tables db ''DataItemVersions'')
        else tables db ''DataItemVersions'')
   \<and> (n \<noteq> ''DataItemVersion'' \<and> n \<noteq> ''User'' \<and> n \<noteq> ''DataItem'' \<longrightarrow>
        tables (exec hash (Destroy n i) db) ''DataItemVersions'' = tables db ''DataItemVersions'')"
  using exec_Create_table [of hash n now salt vals db "''DataItemVersions''"]
    exec_Update_other_table [of n hash now salt i vals db]
    exec_Destroy_User_versions [of hash i db] exec_Destroy_DataItem_versions [of hash i db]
    exec_Destroy_other_versions [of n hash i db]
  by (simp del: exec.simps)

theorem DataItemVersions_removed_only_by_cascade_witness:
  "tables (exec example_hash (Update ''QueueItem'' 5 [] 1 [(''status'', StrV ''leased'')])
       (run example_hash audit_history)) ''DataItemVersions''
     = tables (run example_hash audit_history) ''DataItemVersions''
   \<and> tables (exec example_hash (Destroy ''User'' 1) (run example_hash audit_history))
       ''DataItemVersions'' = []
   \<and> tables (exec example_hash (Destroy ''DataItem'' 1) (run example_hash audit_history))
       ''DataItemVersions'' = []
   \<and> tables (exec example_hash (Destroy ''QueueItem'' 1) (run example_hash audit_history))
       ''DataItemVersions''
     = tables (run example_hash audit_history) ''DataItemVersions''"
  using DataItemVersions_removed_only_by_cascade [of example_hash "''QueueItem''" 5 "[]"
      "[(''status'', StrV ''leased'')]" "run example_hash audit_history" 1]
  by (simp add: audit_history_parents audit_history_versions get_def del: exec.simps)

text \<open>
  C4. The model and the migration declare \<open>status\<close> as
  \<open>ENUM('pending', 'leased', 'completed')\<close>, and nothing checks a given status against
  the list. Once the data item exists, a create with the status \<open>'done'\<close> stores the
  row with that status; on the history of the test, an update of the QueueItem to the
  status \<open>'done'\<close> is written; and the history that ends with this update leads to a
  state whose one QueueItem has a status that is none of the three.
\<close>

theorem unlisted_status_stored:
  "fst (Model_create QueueItem 4 [] (run example_hash ingest_history)
        [(''dataItemId'', IntV 1), (''status'', StrV ''done'')])
     = Inr [(''id'', IntV 1), (''dataItemId'', IntV 1), (''status'', StrV ''done''),
            (''leasedById'', Null), (''leasedAt'', Null), (''completedById'', Null),
            (''completedAt'', Null), (''createdAt'', DateV 4), (''updatedAt'', DateV 4)]
   \<and> fst (Model_update QueueItem 6 [] (run example_hash test_history) 1
        [(''status'', StrV ''done'')])
     = Inr (Some [(''id'', IntV 1), (''dataItemId'', IntV 1), (''status'', StrV ''done''),
            (''leasedById'', IntV 2), (''leasedAt'', DateV 5), (''completedById'', Null),
            (''completedAt'', Null), (''createdAt'', DateV 5), (''updatedAt'', DateV 6)])
   \<and> column_values ''status'' (tables (run example_hash
        (test_history @ [Update ''QueueItem'' 6 [] 1 [(''status'', StrV ''done'')]]))
        ''QueueItems'') = [StrV ''done'']
   \<and> StrV ''done'' \<notin> {StrV ''pending'', StrV ''leased'', StrV ''completed''}"
  using unlisted_status_created unlisted_status_updated unlisted_status_reached
  by simp

text \<open>
  C5. After a QueueItem has been created for a data item, creating one again from the
  same \<open>dataItemId\<close> fails with the unique-constraint error on \<open>dataItemId\<close>
  (the spec's DuplicateLease; the test expects the rejection at lines 79 to 84) and leaves
  the database, the first QueueItem included, as it was.
\<close>

theorem second_QueueItem_refused:
  "Model_create QueueItem now salt (run hash reqs) vals = (Inr q, db1)
      \<and> get vals ''dataItemId'' = IntV d
   \<longrightarrow> Model_create QueueItem now' salt' db1 [(''dataItemId'', IntV d)]
         = (Inl (UniqueConstraintError ''dataItemId''), db1)
       \<and> q \<in> set (tables db1 ''QueueItems'')"
proof
  assume a: "Model_create QueueItem now salt (run hash reqs) vals = (Inr q, db1)
      \<and> get vals ''dataItemId'' = IntV d"
  then have c: "Model_create QueueItem now salt (run hash reqs) vals = (Inr q, db1)" by simp
  have "db1 = run hash (reqs @ [Create ''QueueItem'' now salt vals])"
    by (simp add: run_snoc model_named_QueueItem c)
  then have ids: "ids_consistent db1" by (simp only: run_ids)
  have rows: "tables db1 ''QueueItems'' = tables (run hash reqs) ''QueueItems'' @ [q]"
    by (rule QueueItem_create_fields [OF c])
  have "get q ''dataItemId'' = IntV d"
    using QueueItem_create_fields(1) [OF c] a by simp
  with rows have "IntV d \<in> set (column_values ''dataItemId'' (tables db1 ''QueueItems''))"
    by (simp add: column_values_def)
  with fresh_id [OF ids, of "''QueueItems''"] rows
  show "Model_create QueueItem now' salt' db1 [(''dataItemId'', IntV d)]
         = (Inl (UniqueConstraintError ''dataItemId''), db1)
       \<and> q \<in> set (tables db1 ''QueueItems'')"
    by (simp add: QueueItem_create_for_item)
qed

theorem second_QueueItem_refused_witness:
  "Model_create QueueItem 5 []
      (snd (Model_create QueueItem 4 [] (run example_hash ingest_history) [(''dataItemId'', IntV 1)]))
      [(''dataItemId'', IntV 1)]
     = (Inl (UniqueConstraintError ''dataItemId''),
        snd (Model_create QueueItem 4 [] (run example_hash ingest_history) [(''dataItemId'', IntV 1)]))
   \<and> [(''id'', IntV 1), (''dataItemId'', IntV 1), (''status'', StrV ''pending''),
       (''leasedById'', Null), (''leasedAt'', Null), (''completedById'', Null),
       (''completedAt'', Null), (''createdAt'', DateV 4), (''updatedAt'', DateV 4)]
      \<in> set (tables (snd (Model_create QueueItem 4 [] (run example_hash ingest_history)
                 [(''dataItemId'', IntV 1)])) ''QueueItems'')"
proof -
  let ?db = "run example_hash ingest_history"
  let ?q = "[(''id'', IntV 1), (''dataItemId'', IntV 1), (''status'', StrV ''pending''),
         (''leasedById'', Null), (''leasedAt'', Null), (''completedById'', Null),
         (''completedAt'', Null), (''createdAt'', DateV 4), (''updatedAt'', DateV 4)]"
  have "Model_create QueueItem 4 [] ?db [(''dataItemId'', IntV 1)]
      = (Inr ?q, snd (Model_create QueueItem 4 [] ?db [(''dataItemId'', IntV 1)]))"
    by (simp add: QueueItem_create_for_item ingest_DataItems column_values_def get_def)
  with second_QueueItem_refused [of 4 "[]" example_hash ingest_history "[(''dataItemId'', IntV 1)]" ?q
      "snd (Model_create QueueItem 4 [] ?db [(''dataItemId'', IntV 1)])" 1 5 "[]"]
  show ?thesis
    by (simp add: get_def)
qed

text \<open>
  C6. On the lease queue modelled from the spec: Complete on a LeaseRecord whose status is
  pending or completed fails with NotLeased and changes nothing (no VersionRecord is
  appended); a Complete that succeeds found the record leased and appends exactly the
  VersionRecord it returns; and no operation (CreateForItem, AcquireNext, Release,
  Complete) changes a completed LeaseRecord.
\<close>

theorem Complete_only_from_leased:
  "(leases st w = Some l \<and> status l \<noteq> leased
      \<longrightarrow> Complete now w user corrected st = (Inl NotLeased, st))
   \<and> (Complete now w user corrected st = (Inr v, st')
      \<longrightarrow> (\<exists>l0. leases st w = Some l0 \<and> status l0 = leased) \<and> versions st' = versions st @ [v])
   \<and> (leases st w = Some l \<and> status l = completed \<longrightarrow> leases (apply_op op st) w = Some l)"
  using Complete_not_leased [of st w l now user corrected]
    Complete_Inr [of now w user corrected st v st']
    completed_is_terminal [of st w l op]
  by blast

theorem Complete_only_from_leased_witness:
  "Complete 6 1 reviewer [] queue_created = (Inl NotLeased, queue_created)
   \<and> Complete 8 1 reviewer [] queue_completed = (Inl NotLeased, queue_completed)
   \<and> versions queue_completed =
       [\<lparr>workItem = 1, sequence = 1, correctedFields = [(''accessionId'', StrV ''ABC-123'')],
         actingUser = 7\<rparr>]
   \<and> leases (apply_op (OpRelease 1 reviewer) queue_completed) 1
       = Some \<lparr>status = completed, leasedBy = Some 7, leasedAt = Some 5,
               completedBy = Some 7, completedAt = Some 6\<rparr>"
  using Complete_only_from_leased [of queue_created 1 "\<lparr>status = pending, leasedBy = None,
        leasedAt = None, completedBy = None, completedAt = None\<rparr>" 6 reviewer "[]"]
    Complete_only_from_leased [of queue_completed 1 "\<lparr>status = completed, leasedBy = Some 7,
        leasedAt = Some 5, completedBy = Some 7, completedAt = Some 6\<rparr>" 8 reviewer "[]"
        _ _ "OpRelease 1 reviewer"]
    Complete_only_from_leased [of queue_leased 1 _ 6 reviewer "[(''accessionId'', StrV ''ABC-123'')]"
        "\<lparr>workItem = 1, sequence = 1, correctedFields = [(''accessionId'', StrV ''ABC-123'')],
           actingUser = 7\<rparr>" queue_completed]
  by (simp add: queue_example del: apply_op.simps One_nat_def)

text \<open>
  C7. A QueueItem created without a status is stored with status pending, and its leasing
  and completion user and time are what the caller gave, null where nothing was given.
  For a data item that exists and has no queue item yet, creating the queue item from the
  \<open>dataItemId\<close> alone succeeds, and the stored row is pending with all four null.
\<close>

theorem QueueItem_created_pending:
  "(Model_create QueueItem now salt db vals = (Inr q, db') \<and> map_of vals ''status'' = None
      \<longrightarrow> get q ''status'' = StrV ''pending''
          \<and> get q ''leasedById'' = get vals ''leasedById''
          \<and> get q ''leasedAt'' = get vals ''leasedAt''
          \<and> get q ''completedById'' = get vals ''completedById''
          \<and> get q ''completedAt'' = get vals ''completedAt''
          \<and> tables db' ''QueueItems'' = tables db ''QueueItems'' @ [q])
   \<and> (IntV d \<in> set (column_values ''id'' (tables (run hash reqs) ''DataItems''))
        \<and> IntV d \<notin> set (column_values ''dataItemId'' (tables (run hash reqs) ''QueueItems''))
      \<longrightarrow> (\<exists>q' db''. Model_create QueueItem now salt (run hash reqs) [(''dataItemId'', IntV d)] = (Inr q', db'')
            \<and> tables db'' ''QueueItems'' = tables (run hash reqs) ''QueueItems'' @ [q']
            \<and> get q' ''dataItemId'' = IntV d
            \<and> get q' ''status'' = StrV ''pending''
            \<and> get q' ''leasedById'' = Null \<and> get q' ''leasedAt'' = Null
            \<and> get q' ''completedById'' = Null \<and> get q' ''completedAt'' = Null))"
proof (intro conjI impI)
  assume a: "Model_create QueueItem now salt db vals = (Inr q, db') \<and> map_of vals ''status'' = None"
  then have c: "Model_create QueueItem now salt db vals = (Inr q, db')" by simp
  from QueueItem_create_status [OF c] a
  show "get q ''status'' = StrV ''pending''" by simp
  show "get q ''leasedById'' = get vals ''leasedById''" by (rule QueueItem_create_fields [OF c])
  show "get q ''leasedAt'' = get vals ''leasedAt''" by (rule QueueItem_create_fields [OF c])
  show "get q ''completedById'' = get vals ''completedById''" by (rule QueueItem_create_fields [OF c])
  show "get q ''completedAt'' = get vals ''completedAt''" by (rule QueueItem_create_fields [OF c])
  show "tables db' ''QueueItems'' = tables db ''QueueItems'' @ [q]" by (rule QueueItem_create_fields [OF c])
next
  assume "IntV d \<in> set (column_values ''id'' (tables (run hash reqs) ''DataItems''))
        \<and> IntV d \<notin> set (column_values ''dataItemId'' (tables (run hash reqs) ''QueueItems''))"
  then show "\<exists>q' db''. Model_create QueueItem now salt (run hash reqs) [(''dataItemId'', IntV d)] = (Inr q', db'')
            \<and> tables db'' ''QueueItems'' = tables (run hash reqs) ''QueueItems'' @ [q']
            \<and> get q' ''dataItemId'' = IntV d
            \<and> get q' ''status'' = StrV ''pending''
            \<and> get q' ''leasedById'' = Null \<and> get q' ''leasedAt'' = Null
            \<and> get q' ''completedById'' = Null \<and> get q' ''completedAt'' = Null"
    using fresh_id [OF run_ids, of hash reqs "''QueueItems''"]
    by (simp add: QueueItem_create_for_item get_def)
qed

theorem QueueItem_created_pending_witness:
  "(get [(''id'', IntV 1), (''dataItemId'', IntV 1), (''status'', StrV ''pending''),
         (''leasedById'', Null), (''leasedAt'', Null), (''completedById'', Null),
         (''completedAt'', Null), (''createdAt'', DateV 4), (''updatedAt'', DateV 4)] ''status''
      = StrV ''pending'')
   \<and> (\<exists>q' db''. Model_create QueueItem 4 [] (run example_hash ingest_history)
            [(''dataItemId'', IntV 1)] = (Inr q', db'')
          \<and> get q' ''status'' = StrV ''pending'' \<and> get q' ''leasedById'' = Null)"
proof -
  let ?db = "run example_hash ingest_history"
  let ?q = "[(''id'', IntV 1), (''dataItemId'', IntV 1), (''status'', StrV ''pending''),
         (''leasedById'', Null), (''leasedAt'', Null), (''completedById'', Null),
         (''completedAt'', Null), (''createdAt'', DateV 4), (''updatedAt'', DateV 4)]"
  have "Model_create QueueItem 4 [] ?db [(''dataItemId'', IntV 1)]
      = (Inr ?q, snd (Model_create QueueItem 4 [] ?db [(''dataItemId'', IntV 1)]))"
    by (simp add: QueueItem_create_for_item ingest_DataItems column_values_def get_def)
  with QueueItem_created_pending [of 4 "[]" ?db "[(''dataItemId'', IntV 1)]" ?q
      "snd (Model_create QueueItem 4 [] ?db [(''dataItemId'', IntV 1)])" 1 example_hash
      ingest_history]
  show ?thesis
    by (simp add: ingest_DataItems column_values_def get_def) blast
qed

text \<open>
  C8. The model declares \<open>version\<close>, \<open>accessionId\<close>, \<open>stain\<close>, \<open>blockNumber\<close> and
  \<open>isComplete\<close>; the table the migration creates has none of the five. The create of the
  test file (lines 45 to 50) is refused on that table, for the column \<open>version\<close>, and
  the history of the test leaves DataItemVersions empty.
\<close>

theorem test_version_not_persisted:
  "fst (Model_create DataItemVersion 4 [] (run example_hash (take 3 test_history))
      [(''dataItemId'', IntV 1), (''changedByUserId'', IntV 2), (''version'', IntV 1),
       (''accessionId'', StrV ''ABC-123'')]) = Inl (DatabaseError ''version'')
   \<and> tables (run example_hash test_history) ''DataItemVersions'' = []
   \<and> filter (\<lambda>k. k \<notin> set (map field DataItemVersions_table)) (map field DataItemVersion_attributes)
       = [''version'', ''accessionId'', ''stain'', ''blockNumber'', ''isComplete'']"
proof (intro conjI)
  show "fst (Model_create DataItemVersion 4 [] (run example_hash (take 3 test_history))
      [(''dataItemId'', IntV 1), (''changedByUserId'', IntV 2), (''version'', IntV 1),
       (''accessionId'', StrV ''ABC-123'')]) = Inl (DatabaseError ''version'')"
    by code_simp
  show "tables (run example_hash test_history) ''DataItemVersions'' = []"
    by code_simp
  show "filter (\<lambda>k. k \<notin> set (map field DataItemVersions_table)) (map field DataItemVersion_attributes)
       = [''version'', ''accessionId'', ''stain'', ''blockNumber'', ''isComplete'']"
    by (simp add: DataItemVersions_table_def DataItemVersion_attributes_def attr_def)
qed

text \<open>
  C9. Deleting a user that exists nulls \<open>leasedById\<close> and \<open>completedById\<close> on every
  QueueItem that held the user's id and changes no other column of any QueueItem (status
  and time stamps among them); and a QueueItem with status leased and a null
  \<open>leasedById\<close> is reachable.
\<close>

theorem User_destroy_nulls_lease_references:
  "(IntV u \<in> set (column_values ''id'' (tables db ''Users''))
      \<longrightarrow> list_all2 (\<lambda>q q'.
              get q' ''leasedById'' = (if get q ''leasedById'' = IntV u then Null else get q ''leasedById'')
            \<and> get q' ''completedById''
                = (if get q ''completedById'' = IntV u then Null else get q ''completedById'')
            \<and> get q' ''status'' = get q ''status''
            \<and> get q' ''leasedAt'' = get q ''leasedAt''
            \<and> get q' ''completedAt'' = get q ''completedAt''
            \<and> get q' ''createdAt'' = get q ''createdAt''
            \<and> get q' ''updatedAt'' = get q ''updatedAt''
            \<and> get q' ''dataItemId'' = get q ''dataItemId''
            \<and> get q' ''id'' = get q ''id'')
          (tables db ''QueueItems'') (tables (exec hash (Destroy ''User'' u) db) ''QueueItems''))
   \<and> (\<exists>reqs. \<exists>q \<in> set (tables (run hash reqs) ''QueueItems'').
          get q ''status'' = StrV ''leased'' \<and> get q ''leasedById'' = Null)"
proof (intro conjI impI)
  assume "IntV u \<in> set (column_values ''id'' (tables db ''Users''))"
  then show "list_all2 (\<lambda>q q'.
              get q' ''leasedById'' = (if get q ''leasedById'' = IntV u then Null else get q ''leasedById'')
            \<and> get q' ''completedById''
                = (if get q ''completedById'' = IntV u then Null else get q ''completedById'')
            \<and> get q' ''status'' = get q ''status''
            \<and> get q' ''leasedAt'' = get q ''leasedAt''
            \<and> get q' ''completedAt'' = get q ''completedAt''
            \<and> get q' ''createdAt'' = get q ''createdAt''
            \<and> get q' ''updatedAt'' = get q ''updatedAt''
            \<and> get q' ''dataItemId'' = get q ''dataItemId''
            \<and> get q' ''id'' = get q ''id'')
          (tables db ''QueueItems'') (tables (exec hash (Destroy ''User'' u) db) ''QueueItems'')"
    by (simp add: User_destroy_QueueItems list_all2_map2 list_all2_same get_put del: exec.simps)
next
  have "\<exists>q \<in> set (tables (run hash (test_history @ [Destroy ''User'' 2])) ''QueueItems'').
          get q ''status'' = StrV ''leased'' \<and> get q ''leasedById'' = Null"
    by (simp add: leased_without_user get_def)
  then show "\<exists>reqs. \<exists>q \<in> set (tables (run hash reqs) ''QueueItems'').
          get q ''status'' = StrV ''leased'' \<and> get q ''leasedById'' = Null"
    by blast
qed

theorem User_destroy_nulls_lease_references_witness:
  "list_all2 (\<lambda>q q'.
              get q' ''leasedById'' = (if get q ''leasedById'' = IntV 2 then Null else get q ''leasedById'')
            \<and> get q' ''completedById''
                = (if get q ''completedById'' = IntV 2 then Null else get q ''completedById'')
            \<and> get q' ''status'' = get q ''status''
            \<and> get q' ''leasedAt'' = get q ''leasedAt''
            \<and> get q' ''completedAt'' = get q ''completedAt''
            \<and> get q' ''createdAt'' = get q ''createdAt''
            \<and> get q' ''updatedAt'' = get q ''updatedAt''
            \<and> get q' ''dataItemId'' = get q ''dataItemId''
            \<and> get q' ''id'' = get q ''id'')
          (tables (run example_hash test_history) ''QueueItems'')
          (tables (run example_hash (test_history @ [Destroy ''User'' 2])) ''QueueItems'')
   \<and> get (hd (tables (run example_hash (test_history @ [Destroy ''User'' 2])) ''QueueItems''))
        ''leasedById'' = Null
   \<and> get (hd (tables (run example_hash (test_history @ [Destroy ''User'' 2])) ''QueueItems''))
        ''status'' = StrV ''leased''"
proof -
  have "IntV 2 \<in> set (column_values ''id'' (tables (run example_hash test_history) ''Users''))"
    by (simp add: test_history_Users)
  with User_destroy_nulls_lease_references [of 2 "run example_hash test_history" example_hash]
  show ?thesis
    unfolding run_snoc by (simp add: leased_without_user [unfolded run_snoc] get_def del: exec.simps)
qed

text \<open>
  C10. bcrypt is a parameter: \<open>hash\<close> and \<open>compare\<close>, with the salt \<open>genSalt\<close> drew.
  For a user created with the non-empty password \<open>p\<close>, where bcrypt's hash of \<open>p\<close>
  differs from \<open>p\<close> and bcrypt's compare accepts it: the stored \<open>passwordHash\<close> is that
  hash and is not \<open>p\<close>, the stored row has no \<open>password\<close>, and \<open>verifyPassword\<close>
  of \<open>p\<close> on the stored user returns true.
\<close>

theorem User_password_round_trip:
  "Model_create (User hash) now salt db vals = (Inr user, db')
     \<and> get vals ''password'' = StrV p \<and> p \<noteq> []
     \<and> hash p salt \<noteq> p \<and> compare p (hash p salt)
   \<longrightarrow> get user ''passwordHash'' = StrV (hash p salt)
     \<and> get user ''passwordHash'' \<noteq> StrV p
     \<and> map_of user ''password'' = None
     \<and> tables db' ''Users'' = tables db ''Users'' @ [user]
     \<and> verifyPassword compare user (StrV p) = Inr True"
proof
  assume a: "Model_create (User hash) now salt db vals = (Inr user, db')
     \<and> get vals ''password'' = StrV p \<and> p \<noteq> []
     \<and> hash p salt \<noteq> p \<and> compare p (hash p salt)"
  then have c: "Model_create (User hash) now salt db vals = (Inr user, db')"
    and p: "get vals ''password'' = StrV p" "p \<noteq> []" by simp_all
  note u = User_created [OF c p]
  from u(1) a have "verifyPassword compare user (StrV p) = Inr True"
    by (simp add: verifyPassword_def)
  with u a show "get user ''passwordHash'' = StrV (hash p salt)
     \<and> get user ''passwordHash'' \<noteq> StrV p
     \<and> map_of user ''password'' = None
     \<and> tables db' ''Users'' = tables db ''Users'' @ [user]
     \<and> verifyPassword compare user (StrV p) = Inr True"
    by simp
qed

theorem User_password_round_trip_witness:
  "get [(''id'', IntV 1), (''username'', StrV ''testuser''),
        (''passwordHash'', StrV ''salt1password123''), (''correctionCount'', IntV 0),
        (''isAdmin'', BoolV False), (''createdAt'', DateV 1), (''updatedAt'', DateV 1)]
      ''passwordHash'' \<noteq> StrV ''password123''
   \<and> verifyPassword example_compare
        [(''id'', IntV 1), (''username'', StrV ''testuser''),
         (''passwordHash'', StrV ''salt1password123''), (''correctionCount'', IntV 0),
         (''isAdmin'', BoolV False), (''createdAt'', DateV 1), (''updatedAt'', DateV 1)]
        (StrV ''password123'') = Inr True"
proof -
  let ?vals = "[(''username'', StrV ''testuser''), (''password'', StrV ''password123'')]"
  let ?user = "[(''id'', IntV 1), (''username'', StrV ''testuser''),
        (''passwordHash'', StrV ''salt1password123''), (''correctionCount'', IntV 0),
        (''isAdmin'', BoolV False), (''createdAt'', DateV 1), (''updatedAt'', DateV 1)]"
  let ?db' = "snd (Model_create (User example_hash) 1 ''salt1'' empty_database ?vals)"
  have "Model_create (User example_hash) 1 ''salt1'' empty_database ?vals = (Inr ?user, ?db')"
    using first_user by (metis prod.collapse)
  moreover have "get ?vals ''password'' = StrV ''password123''"
    by (simp add: get_def)
  moreover have "example_hash ''password123'' ''salt1'' \<noteq> ''password123''"
    by (simp add: example_hash_def)
  moreover have "example_compare ''password123'' (example_hash ''password123'' ''salt1'')"
    by (simp add: example_hash_def example_compare_def)
  ultimately show ?thesis
    using User_password_round_trip [of example_hash 1 "''salt1''" empty_database ?vals ?user ?db'
      "''password123''" example_compare]
    by simp
qed

end
